theory Spec2Isabelle
  imports
    Complex_Main
    "HOL-Library.Char_ord"
    "HOL-Library.List_Lexorder"
    "HOL-Library.Multiset"
begin

section \<open>Numbers\<close>

text \<open>
  The dashboard is TypeScript; every \<open>number\<close> is an IEEE double. The embedding reads
  seeds, loop counters and hash values as mathematical integers (\<open>int\<close>, \<open>nat\<close>) and
  rates and trend values as \<open>real\<close>: arithmetic is exact. For the integers of the hash
  this is what the doubles compute as long as \<open>(seed + 11) * (i + 17) * 9301 + 49297\<close>
  stays below \<open>2 ^ 53\<close> in absolute value; rounding of the trend products is not modelled.

  The \<open>%\<close> operator of JavaScript truncates towards zero: the remainder takes the sign of
  the dividend.
\<close>

definition js_rem :: "int \<Rightarrow> int \<Rightarrow> int" where
  "js_rem a b = sgn a * (\<bar>a\<bar> mod \<bar>b\<bar>)"

section \<open>The trend generator (\<open>makeTrend\<close>)\<close>

datatype RangeKey = R24H | R7D | R30D | R3M

text \<open>
  Both pages carry their own copy of \<open>makeTrend\<close>. The copies share the spread table and
  the loop body and differ in the length table and in the constants of the hash.
  \<open>_full\<close> is the copy of \<open>CurrencyChartsFullPage.tsx\<close>, \<open>_section\<close> the one of
  \<open>CurrencyChartsSection.tsx\<close>.
\<close>

definition length_full :: "RangeKey \<Rightarrow> nat" where
  "length_full rk =
     (if rk = R24H then 18 else if rk = R7D then 22 else if rk = R30D then 26 else 30)"

definition length_section :: "RangeKey \<Rightarrow> nat" where
  "length_section rk =
     (if rk = R24H then 16 else if rk = R7D then 20 else if rk = R30D then 24 else 28)"

text \<open>\<open>let spread = 0.004\<close> followed by three overriding \<open>if\<close> statements.\<close>

definition spread_of :: "RangeKey \<Rightarrow> real" where
  "spread_of rk =
     (let spread = 0.004;
          spread = (if rk = R7D then 0.008 else spread);
          spread = (if rk = R30D then 0.012 else spread);
          spread = (if rk = R3M then 0.018 else spread)
      in spread)"

text \<open>
  The hash of one step: \<open>s = (seed + 11) * (i + 17)\<close> and
  \<open>rand = (((s * 9301 + 49297) % 233280) / 233280) * 2 - 1\<close>, commented \<open>// -1..1\<close> in
  both copies.
\<close>

definition rand_full :: "int \<Rightarrow> nat \<Rightarrow> real" where
  "rand_full seed i =
     (let s = (seed + 11) * (int i + 17)
      in (real_of_int (js_rem (s * 9301 + 49297) 233280) / 233280) * 2 - 1)"

definition rand_section :: "int \<Rightarrow> nat \<Rightarrow> real" where
  "rand_section seed i =
     (let s = (seed + 7) * (int i + 11)
      in (real_of_int (js_rem (s * 9301 + 49297) 233280) / 233280) * 2 - 1)"

text \<open>
  The \<open>for\<close> loop: \<open>i\<close> counts up to \<open>length\<close>, \<open>v\<close> is the running value and \<open>values\<close>
  the array that \<open>push\<close> extends. \<open>rnd i\<close> stands for the hash of the copy at hand.
\<close>

function trend_loop ::
  "(nat \<Rightarrow> real) \<Rightarrow> real \<Rightarrow> nat \<Rightarrow> nat \<Rightarrow> real \<Rightarrow> real list \<Rightarrow> real list" where
  "trend_loop rnd spread len i v vals =
     (if i < len then
        (let delta = rnd i * spread;
             v' = v * (1 + delta)
         in trend_loop rnd spread len (i + 1) v' (vals @ [v']))
      else vals)"
  by pat_completeness auto
termination
  by (relation "measure (\<lambda>(rnd, spread, len, i, v, vals). len - i)") auto

declare trend_loop.simps [simp del]

definition makeTrend_full :: "RangeKey \<Rightarrow> int \<Rightarrow> real list" where
  "makeTrend_full rk seed =
     trend_loop (rand_full seed) (spread_of rk) (length_full rk) 0 1 []"

definition makeTrend_section :: "RangeKey \<Rightarrow> int \<Rightarrow> real list" where
  "makeTrend_section rk seed =
     trend_loop (rand_section seed) (spread_of rk) (length_section rk) 0 1 []"

section \<open>The rate table (\<open>rows\<close>)\<close>

text \<open>
  \<open>Record<string, number>\<close>: the own keys of the object in the order of \<open>Object.keys\<close>,
  each with its value. A well-formed object has no key twice. \<open>rates[code]\<close> is
  \<open>map_of\<close>; \<open>undefined\<close> is \<open>None\<close>. A rate is \<open>real\<close>, so the only falsy rate is 0.
\<close>

type_synonym rate_record = "(string \<times> real) list"

text \<open>
  A flag emoji is written by the two region letters it encodes, the globe emoji as
  \<open>''globe''\<close>.
\<close>

record RowMeta =
  code :: string
  name :: string
  flag :: string

record TableRow = RowMeta +
  rate :: real
  changePct :: real
  "values" :: "real list"
  isFocus :: bool

definition globe :: string where
  "globe = ''globe''"

definition FLAGS :: "(string \<times> string) list" where
  "FLAGS =
     [(''USD'', ''US''), (''EUR'', ''EU''), (''GBP'', ''GB''), (''JPY'', ''JP''),
      (''CAD'', ''CA''), (''AUD'', ''AU''), (''INR'', ''IN''), (''SGD'', ''SG''),
      (''CHF'', ''CH''), (''ZAR'', ''ZA'')]"

definition getName :: "string \<Rightarrow> string" where
  "getName c =
     (if c = ''USD'' then ''US Dollar''
      else if c = ''EUR'' then ''Euro''
      else if c = ''GBP'' then ''British Pound''
      else if c = ''JPY'' then ''Japanese Yen''
      else if c = ''CAD'' then ''Canadian Dollar''
      else if c = ''AUD'' then ''Australian Dollar''
      else if c = ''INR'' then ''Indian Rupee''
      else if c = ''SGD'' then ''Singapore Dollar''
      else if c = ''CHF'' then ''Swiss Franc''
      else if c = ''ZAR'' then ''South African Rand''
      else c)"

definition ROWS :: "RowMeta list" where
  "ROWS =
     [\<lparr>code = ''USD'', name = ''US Dollar'', flag = ''US''\<rparr>,
      \<lparr>code = ''EUR'', name = ''Euro'', flag = ''EU''\<rparr>,
      \<lparr>code = ''GBP'', name = ''British Pound'', flag = ''GB''\<rparr>,
      \<lparr>code = ''JPY'', name = ''Japanese Yen'', flag = ''JP''\<rparr>,
      \<lparr>code = ''CAD'', name = ''Canadian Dollar'', flag = ''CA''\<rparr>,
      \<lparr>code = ''AUD'', name = ''Australian Dollar'', flag = ''AU''\<rparr>,
      \<lparr>code = ''INR'', name = ''Indian Rupee'', flag = ''IN''\<rparr>]"

definition SAMPLE_RATES :: rate_record where
  "SAMPLE_RATES =
     [(''USD'', 1), (''EUR'', 0.92), (''GBP'', 0.78), (''JPY'', 151.2),
      (''CAD'', 1.37), (''AUD'', 1.52), (''INR'', 83.1)]"

text \<open>\<open>if (!baseUsd || !quoteUsd) return null\<close>: a missing or zero sample rate gives \<open>null\<close>.\<close>

definition crossRate :: "string \<Rightarrow> string \<Rightarrow> real option" where
  "crossRate base quote =
     (case map_of SAMPLE_RATES base of
        None \<Rightarrow> None
      | Some baseUsd \<Rightarrow>
          (case map_of SAMPLE_RATES quote of
             None \<Rightarrow> None
           | Some quoteUsd \<Rightarrow>
               if baseUsd = 0 \<or> quoteUsd = 0 then None else Some (quoteUsd / baseUsd)))"

text \<open>
  \<open>Number(x.toFixed(2))\<close>: the nearest multiple of 0.01, a tie going away from zero.
\<close>

definition toFixed2 :: "real \<Rightarrow> real" where
  "toFixed2 x = sgn x * real_of_int \<lfloor>\<bar>x\<bar> * 100 + 1 / 2\<rfloor> / 100"

subsection \<open>Sorting\<close>

text \<open>
  \<open>a.code.localeCompare(b.code)\<close> is called without a locale: it is the collation of
  the browser's default locale, which the repository does not fix. It is a parameter of
  everything that sorts, \<open>localeCompare\<close>, giving a negative number, zero or a positive
  number.
\<close>

type_synonym collation = "string \<Rightarrow> string \<Rightarrow> int"

definition compareRows :: "collation \<Rightarrow> TableRow \<Rightarrow> TableRow \<Rightarrow> int" where
  "compareRows localeCompare a b =
     (if isFocus a \<and> \<not> isFocus b then - 1
      else if \<not> isFocus a \<and> isFocus b then 1
      else localeCompare (code a) (code b))"

text \<open>
  Two collations a browser can have, on strings of upper-case ASCII letters, for the
  concrete tables below. \<open>codePointCompare\<close> orders character by character, as the root
  and the English collation do on such strings. \<open>czechCompare\<close> is the Czech one there:
  the letters in their usual order, with the digraph CH as one letter between H and I.
\<close>

definition codePointCompare :: collation where
  "codePointCompare a b = (if a < b then - 1 else if a = b then 0 else 1)"

fun czechKey :: "string \<Rightarrow> nat list" where
  "czechKey [] = []"
| "czechKey [c] = [2 * of_char c]"
| "czechKey (c # d # cs) =
     (if c = CHR ''C'' \<and> d = CHR ''H'' then (2 * of_char (CHR ''H'') + 1) # czechKey cs
      else (2 * of_char c) # czechKey (d # cs))"

definition czechCompare :: collation where
  "czechCompare a b =
     (if czechKey a < czechKey b then - 1 else if czechKey a = czechKey b then 0 else 1)"

text \<open>
  \<open>Array.prototype.sort\<close> with a comparator is a stable sort; which algorithm runs is the
  engine's choice. On a consistent comparator (one that compares as a total preorder
  does) every stable sort returns the same array, so the model is the stable insertion
  sort: \<open>x\<close> goes before the first element it does
  not compare greater than.
\<close>

fun insert_by :: "('a \<Rightarrow> 'a \<Rightarrow> int) \<Rightarrow> 'a \<Rightarrow> 'a list \<Rightarrow> 'a list" where
  "insert_by cmp x [] = [x]"
| "insert_by cmp x (y # ys) = (if cmp x y \<le> 0 then x # y # ys else y # insert_by cmp x ys)"

definition sort_by :: "('a \<Rightarrow> 'a \<Rightarrow> int) \<Rightarrow> 'a list \<Rightarrow> 'a list" where
  "sort_by cmp xs = foldr (insert_by cmp) xs []"

subsection \<open>The table of \<open>CurrencyChartsFullPage.tsx\<close>\<close>

text \<open>
  One pass of the \<open>forEach\<close> callback: \<open>None\<close> where the callback returns without a
  \<open>push\<close>. \<open>trend[0]\<close> and \<open>trend[trend.length - 1]\<close> are \<open>hd\<close> and \<open>last\<close>; the trend
  is never empty.
\<close>

definition row_full ::
  "rate_record \<Rightarrow> string \<Rightarrow> string \<Rightarrow> RangeKey \<Rightarrow> bool \<Rightarrow> nat \<Rightarrow> string \<Rightarrow> TableRow option" where
  "row_full rates baseCurrency focusCurrency rk inverseMode index c =
     (if c = baseCurrency then None
      else
        (case map_of rates c of
           None \<Rightarrow> None
         | Some baseToQuote \<Rightarrow>
             if baseToQuote = 0 then None
             else
               (let trend = makeTrend_full rk (int index + (if inverseMode then 20 else 0));
                    changeRaw = (last trend / hd trend - 1) * 100;
                    changePct = toFixed2 changeRaw
                in Some \<lparr>code = c, name = getName c,
                     flag = (case map_of FLAGS c of Some f \<Rightarrow> f | None \<Rightarrow> globe),
                     rate = baseToQuote, changePct = changePct, values = trend,
                     isFocus = (c = focusCurrency)\<rparr>)))"

text \<open>
  \<open>Object.keys(rates)\<close>, with the focus currency put in front by \<open>unshift\<close> when it is
  a non-empty string, is not the base currency and is not among the keys.
\<close>

definition codes_full :: "rate_record \<Rightarrow> string \<Rightarrow> string \<Rightarrow> string list" where
  "codes_full rs baseCurrency focusCurrency =
     (let codes = map fst rs
      in if focusCurrency \<noteq> [] \<and> focusCurrency \<noteq> baseCurrency
            \<and> focusCurrency \<notin> set codes
         then focusCurrency # codes else codes)"

text \<open>The \<open>rates\<close> state of this page is \<open>null\<close> (\<open>None\<close>) until a fetch succeeds.\<close>

definition rows_full ::
  "collation \<Rightarrow> rate_record option \<Rightarrow> string \<Rightarrow> string \<Rightarrow> RangeKey \<Rightarrow> bool
     \<Rightarrow> TableRow list" where
  "rows_full localeCompare rates baseCurrency focusCurrency rk inverseMode =
     (case rates of
        None \<Rightarrow> []
      | Some rs \<Rightarrow>
          (let codes = codes_full rs baseCurrency focusCurrency;
               result =
                 List.map_filter
                   (\<lambda>(index, c). row_full rs baseCurrency focusCurrency rk inverseMode index c)
                   (enumerate 0 codes)
           in sort_by (compareRows localeCompare) result))"

subsection \<open>The table of \<open>CurrencyChartsSection.tsx\<close>\<close>

text \<open>
  The \<open>map\<close> callback: \<open>apiRate ?? fallbackRate\<close> takes the fallback only where the
  fetched record has no entry; \<open>None\<close> is the \<open>null\<close> that \<open>filter(Boolean)\<close> drops.
\<close>

definition row_section ::
  "rate_record \<Rightarrow> string \<Rightarrow> string \<Rightarrow> RangeKey \<Rightarrow> bool \<Rightarrow> nat \<Rightarrow> RowMeta \<Rightarrow> TableRow option" where
  "row_section rates baseCurrency focusCurrency rk inverseMode index row =
     (let apiRate = map_of rates (code row);
          fallbackRate = crossRate baseCurrency (code row);
          rate = (case apiRate of Some a \<Rightarrow> Some a | None \<Rightarrow> fallbackRate)
      in
        (case rate of
           None \<Rightarrow> None
         | Some r \<Rightarrow>
             (let trend = makeTrend_section rk (int index + (if inverseMode then 10 else 0));
                  changeRaw = (last trend / hd trend - 1) * 100;
                  changePct = toFixed2 changeRaw
              in Some \<lparr>code = code row, name = name row, flag = flag row,
                   rate = r, changePct = changePct, values = trend,
                   isFocus = (code row = focusCurrency)\<rparr>)))"

text \<open>
  The candidate list: \<open>[...ROWS]\<close>, with a row for the base currency and then one for
  the focus currency put in front by \<open>unshift\<close> where \<open>find\<close> finds none.
\<close>

definition list_section :: "string \<Rightarrow> string \<Rightarrow> RowMeta list" where
  "list_section baseCurrency focusCurrency =
     (let list = ROWS;
          list =
            (if List.find (\<lambda>r. code r = baseCurrency) list = None
             then \<lparr>code = baseCurrency, name = baseCurrency, flag = globe\<rparr> # list
             else list);
          list =
            (if List.find (\<lambda>r. code r = focusCurrency) list = None
             then \<lparr>code = focusCurrency, name = focusCurrency, flag = globe\<rparr> # list
             else list)
      in list)"

definition rows_section ::
  "collation \<Rightarrow> rate_record \<Rightarrow> string \<Rightarrow> string \<Rightarrow> RangeKey \<Rightarrow> bool \<Rightarrow> TableRow list" where
  "rows_section localeCompare rates baseCurrency focusCurrency rk inverseMode =
     (let list = list_section baseCurrency focusCurrency;
          mapped =
            List.map_filter
              (\<lambda>(index, row). row_section rates baseCurrency focusCurrency rk inverseMode index row)
              (enumerate 0 (filter (\<lambda>row. code row \<noteq> baseCurrency) list))
      in sort_by (compareRows localeCompare) mapped)"

text \<open>
  What the proofs below keep of a table: no code twice, no row of the base currency,
  and the focus flag set on the rows of the focus currency and on no other.
\<close>

definition table_ok :: "string \<Rightarrow> string \<Rightarrow> TableRow list \<Rightarrow> bool" where
  "table_ok baseCurrency focusCurrency rows =
     (distinct (map code rows)
      \<and> list_all (\<lambda>r. code r \<noteq> baseCurrency \<and> isFocus r = (code r = focusCurrency)) rows)"

section \<open>Fetching the rates (\<open>useEffect\<close>)\<close>

text \<open>
  Both pages fetch in an effect with the dependency list \<open>[baseCurrency]\<close>. Each run of
  the effect owns a flag \<open>cancelled\<close>, \<open>false\<close> at the start; the cleanup React calls
  before the next run of the effect, and at unmount, sets it. The page is a state
  machine over three events of the single-threaded event loop: a render that commits a
  base currency, the settling of the request of the \<open>k\<close>-th run of the effect (in any
  order, at any time after the run started), and the unmount.

  \<open>flags\<close> holds the \<open>cancelled\<close> flag of every run so far, oldest first, \<open>requested\<close> the
  base currency each run asked for, and \<open>rates\<close> the \<open>rates\<close> state the table is built
  from.
\<close>

datatype 'd outcome = Resolved 'd | Rejected

datatype 'd event = Render string | Settle nat "'d outcome" | Unmount

record 'r page =
  flags :: "bool list"
  requested :: "string list"
  rates :: 'r

definition mount :: "'r \<Rightarrow> 'r page" where
  "mount r0 = \<lparr>flags = [], requested = [], rates = r0\<rparr>"

text \<open>The cleanup of the latest run: \<open>cancelled = true\<close>.\<close>

definition cleanup :: "'r page \<Rightarrow> 'r page" where
  "cleanup s = (if flags s = [] then s else s\<lparr>flags := butlast (flags s) @ [True]\<rparr>)"

text \<open>
  \<open>cont b out r\<close> is what the code after the \<open>await\<close> does to \<open>rates\<close> once it has found
  \<open>cancelled\<close> false: \<open>b\<close> is the base currency of the run, \<open>out\<close> the outcome of its
  request. A render with the base currency of the latest run leaves the effect alone;
  any other render cleans up and runs the effect again.
\<close>

definition step ::
  "(string \<Rightarrow> 'd outcome \<Rightarrow> 'r \<Rightarrow> 'r) \<Rightarrow> 'r page \<Rightarrow> 'd event \<Rightarrow> 'r page" where
  "step cont s e =
     (case e of
        Render b \<Rightarrow>
          if requested s \<noteq> [] \<and> last (requested s) = b then s
          else (cleanup s)\<lparr>flags := flags (cleanup s) @ [False],
                            requested := requested s @ [b]\<rparr>
      | Settle k out \<Rightarrow>
          if k < length (flags s) \<and> \<not> flags s ! k
          then s\<lparr>rates := cont (requested s ! k) out (rates s)\<rparr>
          else s
      | Unmount \<Rightarrow> cleanup s)"

definition run ::
  "(string \<Rightarrow> 'd outcome \<Rightarrow> 'r \<Rightarrow> 'r) \<Rightarrow> 'r page \<Rightarrow> 'd event list \<Rightarrow> 'r page" where
  "run cont s es = foldl (step cont) s es"

text \<open>
  The invariant of the machine: every run of the effect has its flag and its base
  currency, and every run but the latest is cancelled.
\<close>

definition superseded_cancelled :: "'r page \<Rightarrow> bool" where
  "superseded_cancelled s =
     (length (flags s) = length (requested s) \<and> list_all (\<lambda>c. c) (butlast (flags s)))"

text \<open>
  \<open>CurrencyChartsFullPage.tsx\<close>: \<open>if (cancelled) return; setRates(data.rates)\<close> in the
  \<open>try\<close>, \<open>if (cancelled) return; ... setRates(null)\<close> in the \<open>catch\<close>.
\<close>

definition cont_full :: "string \<Rightarrow> rate_record outcome \<Rightarrow> rate_record option \<Rightarrow> rate_record option" where
  "cont_full b out r = (case out of Resolved d \<Rightarrow> Some d | Rejected \<Rightarrow> None)"

text \<open>
  \<open>CurrencyChartsSection.tsx\<close>: \<open>if (cancelled) return; setRates(data.rates || {})\<close> in
  the \<open>try\<close>; in the \<open>catch\<close>, under \<open>if (!cancelled)\<close>, the fallback record built from
  \<open>crossRate\<close> over \<open>ROWS\<close>.
\<close>

definition fallback_rates :: "string \<Rightarrow> rate_record" where
  "fallback_rates baseCurrency =
     List.map_filter
       (\<lambda>row. if code row = baseCurrency then None
              else (case crossRate baseCurrency (code row) of
                      None \<Rightarrow> None
                    | Some r \<Rightarrow> Some (code row, r)))
       ROWS"

definition cont_section :: "string \<Rightarrow> rate_record option outcome \<Rightarrow> rate_record \<Rightarrow> rate_record" where
  "cont_section b out r =
     (case out of
        Resolved d \<Rightarrow> (case d of Some rs \<Rightarrow> rs | None \<Rightarrow> [])
      | Rejected \<Rightarrow> fallback_rates b)"

section \<open>Alerts (\<open>GetAlertsSection.tsx\<close>)\<close>

subsection \<open>Loading\<close>

text \<open>
  \<open>localStorage.getItem\<close> and \<open>JSON.parse\<close> belong to the browser and are parameters:
  \<open>getItem\<close> gives \<open>null\<close> (\<open>None\<close>) or the stored string, or throws; \<open>parse\<close> gives the
  parsed value or throws. An exception is a value of the left summand.
\<close>

datatype json =
  JNull | JBool bool | JNumber real | JString string
  | JArray "json list" | JObject "(string \<times> json) list"

datatype exn = SyntaxError | SecurityError

definition ALERTS_KEY :: string where
  "ALERTS_KEY = ''fxflow-demo-alerts''"

text \<open>The body of the \<open>try\<close>; \<open>!raw\<close> holds of \<open>null\<close> and of the empty string.\<close>

definition loadAlerts_try ::
  "(string \<Rightarrow> exn + string option) \<Rightarrow> (string \<Rightarrow> exn + json) \<Rightarrow> exn + json list" where
  "loadAlerts_try getItem parse =
     (case getItem ALERTS_KEY of
        Inl e \<Rightarrow> Inl e
      | Inr raw \<Rightarrow>
          (case raw of
             None \<Rightarrow> Inr []
           | Some str \<Rightarrow>
               if str = [] then Inr []
               else
                 (case parse str of
                    Inl e \<Rightarrow> Inl e
                  | Inr parsed \<Rightarrow>
                      Inr (case parsed of JArray xs \<Rightarrow> xs | _ \<Rightarrow> []))))"

text \<open>\<open>try { ... } catch { return []; }\<close>\<close>

definition loadAlerts ::
  "(string \<Rightarrow> exn + string option) \<Rightarrow> (string \<Rightarrow> exn + json) \<Rightarrow> exn + json list" where
  "loadAlerts getItem parse =
     (case loadAlerts_try getItem parse of Inl e \<Rightarrow> Inr [] | Inr alerts \<Rightarrow> Inr alerts)"

subsection \<open>The form\<close>

text \<open>
  A string is a list of 8-bit characters. \<open>trim\<close> strips white space and line
  terminators from both ends; below 256 these are the code points 9 to 13, 32 and 160.
\<close>

definition is_space :: "char \<Rightarrow> bool" where
  "is_space c = (of_char c \<in> {9, 10, 11, 12, 13, 32, 160 :: nat})"

definition trim :: "string \<Rightarrow> string" where
  "trim s = rev (dropWhile is_space (rev (dropWhile is_space s)))"

text \<open>\<open>Number(targetRate)\<close> is a parameter; its result is a finite double or one of three others.\<close>

datatype number = Finite real | NaN | PosInfinity | NegInfinity

record form =
  fromCurrency :: string
  toCurrency :: string
  targetRate :: string
  email :: string

text \<open>
  \<open>validateForm\<close> returns the boolean and leaves a message in the \<open>error\<close> state
  (\<open>None\<close> for \<open>null\<close>).
\<close>

definition validateForm :: "(string \<Rightarrow> number) \<Rightarrow> form \<Rightarrow> bool \<times> string option" where
  "validateForm toNumber f =
     (if fromCurrency f = [] \<or> toCurrency f = [] then
        (False, Some ''Please select both currencies.'')
      else if fromCurrency f = toCurrency f then
        (False, Some ''From and To currencies should be different.'')
      else if trim (targetRate f) = [] then
        (False, Some ''Please enter a target rate.'')
      else
        (let t = toNumber (targetRate f) in
         if (case t of Finite x \<Rightarrow> x \<le> 0 | _ \<Rightarrow> True) then
           (False, Some ''Target rate must be a positive number.'')
         else if trim (email f) = [] then
           (False, Some ''Please enter an email for the alert.'')
         else if CHR ''@'' \<notin> set (email f) \<or> CHR ''.'' \<notin> set (email f) then
           (False, Some ''Please enter a valid email address.'')
         else (True, None)))"

record SavedAlert =
  alert_id :: string
  alert_from :: string
  alert_to :: string
  threshold :: number
  alert_email :: string
  createdAt :: string
  schedule :: "string list"

record alerts_state =
  existingAlerts :: "SavedAlert list"
  saved :: bool
  error :: "string option"
  persisted :: "SavedAlert list option"

text \<open>
  \<open>handleSubmit\<close>: \<open>now\<close> and \<open>isoNow\<close> are the strings of \<open>Date.now()\<close> and
  \<open>new Date().toISOString()\<close>. \<open>persisted\<close> is the list handed to \<open>saveAlerts\<close>, which
  writes it under \<open>ALERTS_KEY\<close> and swallows a failure of the write. Nothing in the
  \<open>try\<close> of \<open>handleSubmit\<close> throws, so its \<open>catch\<close> has no branch here.
\<close>

definition handleSubmit ::
  "(string \<Rightarrow> number) \<Rightarrow> string \<Rightarrow> string \<Rightarrow> form \<Rightarrow> alerts_state \<Rightarrow> alerts_state" where
  "handleSubmit toNumber now isoNow f s =
     (case validateForm toNumber f of
        (False, err) \<Rightarrow> s\<lparr>error := err\<rparr>
      | (True, err) \<Rightarrow>
          (let t = toNumber (targetRate f);
               alert = \<lparr>alert_id = now, alert_from = fromCurrency f, alert_to = toCurrency f,
                        threshold = t, alert_email = trim (email f), createdAt = isoNow,
                        schedule = [''06:00'', ''19:00'']\<rparr>;
               updated = alert # existingAlerts s
           in s\<lparr>existingAlerts := updated, saved := True, error := err,
                 persisted := Some updated\<rparr>))"

section \<open>Properties of the trend generator\<close>

lemma js_rem_bounds: "0 < b \<Longrightarrow> - b < js_rem a b \<and> js_rem a b < b"
proof -
  assume b: "0 < b"
  have m: "0 \<le> \<bar>a\<bar> mod \<bar>b\<bar> \<and> \<bar>a\<bar> mod \<bar>b\<bar> < b"
    using b by simp
  show ?thesis
  proof (cases "a < 0")
    case True
    then have "js_rem a b = - (\<bar>a\<bar> mod \<bar>b\<bar>)" by (simp add: js_rem_def)
    with m b show ?thesis by linarith
  next
    case False
    then have "js_rem a b = \<bar>a\<bar> mod \<bar>b\<bar> \<or> js_rem a b = 0"
      by (cases "a = 0") (simp_all add: js_rem_def)
    with m b show ?thesis by linarith
  qed
qed

lemma js_rem_nonneg: "0 \<le> a \<Longrightarrow> 0 < b \<Longrightarrow> 0 \<le> js_rem a b"
  by (cases "a = 0") (simp_all add: js_rem_def)

text \<open>Whatever the integer hashed, the scaled remainder stays strictly between -3 and 1.\<close>

lemma scaled_rem_bounds:
  "- 3 < (real_of_int (js_rem a 233280) / 233280) * 2 - 1
   \<and> (real_of_int (js_rem a 233280) / 233280) * 2 - 1 < 1"
proof -
  have "- 233280 < js_rem a 233280 \<and> js_rem a 233280 < 233280"
    using js_rem_bounds [of 233280 a] by simp
  then have "- 233280 < real_of_int (js_rem a 233280) \<and> real_of_int (js_rem a 233280) < 233280"
    by linarith
  then show ?thesis by (simp add: field_simps)
qed

lemma scaled_rem_lower_nonneg:
  "0 \<le> a \<Longrightarrow> - 1 \<le> (real_of_int (js_rem a 233280) / 233280) * 2 - 1"
  using js_rem_nonneg [of a 233280] by simp

lemma rand_full_gt: "- 3 < rand_full seed i" and rand_full_lt: "rand_full seed i < 1"
  using scaled_rem_bounds by (simp_all add: rand_full_def Let_def)

lemma rand_section_gt: "- 3 < rand_section seed i" and rand_section_lt: "rand_section seed i < 1"
  using scaled_rem_bounds by (simp_all add: rand_section_def Let_def)

text \<open>
  For the seeds the two tables pass (a row index, plus 10 or 20 in inverse mode) the
  dividend is not negative and the hash value is in the commented interval.
\<close>

lemma rand_full_nonneg_seed:
  "0 \<le> seed \<Longrightarrow> - 1 \<le> rand_full seed i \<and> rand_full seed i < 1"
proof -
  assume "0 \<le> seed"
  then have "0 \<le> (seed + 11) * (int i + 17) * 9301 + 49297" by simp
  from scaled_rem_lower_nonneg [OF this] rand_full_lt [of seed i]
  show ?thesis by (simp add: rand_full_def Let_def)
qed

lemma rand_section_nonneg_seed:
  "0 \<le> seed \<Longrightarrow> - 1 \<le> rand_section seed i \<and> rand_section seed i < 1"
proof -
  assume "0 \<le> seed"
  then have "0 \<le> (seed + 7) * (int i + 11) * 9301 + 49297" by simp
  from scaled_rem_lower_nonneg [OF this] rand_section_lt [of seed i]
  show ?thesis by (simp add: rand_section_def Let_def)
qed

lemma spread_of_bounds: "0 < spread_of rk \<and> spread_of rk \<le> 0.018"
  by (cases rk) (simp_all add: spread_of_def)

lemma step_factor_pos:
  assumes "- 3 < r" and "0 < sp" and "sp \<le> (0.018 :: real)"
  shows "0 < 1 + r * sp"
proof -
  have "- 3 * sp \<le> r * sp"
    using mult_right_mono [of "- 3" r sp] assms by simp
  moreover have "3 * sp \<le> 1 / 2" using assms by simp
  ultimately show ?thesis by linarith
qed

lemma length_trend_loop:
  "length (trend_loop rnd sp len i v vals) = length vals + (len - i)"
proof (induction rnd sp len i v vals rule: trend_loop.induct)
  case (1 rnd sp len i v vals)
  show ?case
  proof (cases "i < len")
    case True
    with "1.IH" [OF True refl refl] show ?thesis
      by (subst trend_loop.simps) (simp add: Let_def)
  next
    case False
    then show ?thesis by (subst trend_loop.simps) simp
  qed
qed

lemma trend_loop_pos:
  "(\<And>k. 0 < 1 + rnd k * sp) \<Longrightarrow> 0 < v \<Longrightarrow> list_all (\<lambda>x. 0 < x) vals
   \<Longrightarrow> list_all (\<lambda>x. 0 < x) (trend_loop rnd sp len i v vals)"
proof (induction rnd sp len i v vals rule: trend_loop.induct)
  case (1 rnd sp len i v vals)
  show ?case
  proof (cases "i < len")
    case True
    have pos: "0 < v * (1 + rnd i * sp)"
      using "1.prems"(1) [of i] "1.prems"(2) by simp
    have "list_all (\<lambda>x. 0 < x) (trend_loop rnd sp len (i + 1) (v * (1 + rnd i * sp))
            (vals @ [v * (1 + rnd i * sp)]))"
      using "1.IH" [OF True refl refl "1.prems"(1)] pos "1.prems"(3) by simp
    with True show ?thesis
      by (subst trend_loop.simps) (simp add: Let_def)
  next
    case False
    with "1.prems"(3) show ?thesis by (subst trend_loop.simps) simp
  qed
qed

text \<open>
  The loop in closed form: the value pushed at step \<open>j\<close> is the start value times the
  product of the step factors up to \<open>j\<close>, a function of the range key, \<open>seed\<close> and \<open>j\<close> alone.
\<close>

lemma trend_loop_closed:
  "trend_loop rnd sp len i v vals =
     vals @ map (\<lambda>j. v * (\<Prod>k = i..<Suc j. 1 + rnd k * sp)) [i..<len]"
proof (induction rnd sp len i v vals rule: trend_loop.induct)
  case (1 rnd sp len i v vals)
  show ?case
  proof (cases "i < len")
    case True
    have eq: "v * (1 + rnd i * sp) * (\<Prod>k = Suc i..<Suc j. 1 + rnd k * sp) =
        v * (\<Prod>k = i..<Suc j. 1 + rnd k * sp)" if "Suc i \<le> j" for j
    proof -
      have "(\<Prod>k = i..<Suc j. 1 + rnd k * sp) =
          (1 + rnd i * sp) * (\<Prod>k = Suc i..<Suc j. 1 + rnd k * sp)"
        using that by (intro prod.atLeast_Suc_lessThan) simp
      then show ?thesis by (simp only: mult.assoc)
    qed
    have "map (\<lambda>j. v * (1 + rnd i * sp) * (\<Prod>k = Suc i..<Suc j. 1 + rnd k * sp)) [Suc i..<len]
        = map (\<lambda>j. v * (\<Prod>k = i..<Suc j. 1 + rnd k * sp)) [Suc i..<len]"
    proof (rule map_cong)
      fix j
      assume "j \<in> set [Suc i..<len]"
      then have "Suc i \<le> j" by simp
      then show "v * (1 + rnd i * sp) * (\<Prod>k = Suc i..<Suc j. 1 + rnd k * sp) =
          v * (\<Prod>k = i..<Suc j. 1 + rnd k * sp)"
        by (rule eq)
    qed simp
    with "1.IH" [OF True refl refl] True show ?thesis
      by (subst trend_loop.simps) (simp add: Let_def upt_conv_Cons)
  next
    case False
    then show ?thesis by (subst trend_loop.simps) simp
  qed
qed

subsection \<open>Claims about the trend generator\<close>

text \<open>
  C2, as the code has it. \<open>makeTrend\<close> is private to its page, and the one call in
  each page passes the seed \<open>index + (inverse ? 20 : 0)\<close> in the full page and
  \<open>index + (inverse ? 10 : 0)\<close> in the section, \<open>index\<close> being an array index. For every
  range key, every such seed, indeed every seed that is not negative, and every step
  the pseudo-random value lies in the interval from -1 to 1, and below 1.
\<close>

theorem rand_in_range_for_table_seeds:
  "(0 \<le> seed \<longrightarrow>
      - 1 \<le> rand_full seed i \<and> rand_full seed i < 1
      \<and> - 1 \<le> rand_section seed i \<and> rand_section seed i < 1)
   \<and> - 1 \<le> rand_full (int index + (if inverseMode then 20 else 0)) i
   \<and> rand_full (int index + (if inverseMode then 20 else 0)) i < 1
   \<and> - 1 \<le> rand_section (int index + (if inverseMode then 10 else 0)) i
   \<and> rand_section (int index + (if inverseMode then 10 else 0)) i < 1"
proof -
  have "0 \<le> int index + (if inverseMode then 20 else 0)"
    and "0 \<le> int index + (if inverseMode then 10 else 0)"
    by simp_all
  then show ?thesis
    using rand_full_nonneg_seed [of seed i] rand_section_nonneg_seed [of seed i]
      rand_full_nonneg_seed [of "int index + (if inverseMode then 20 else 0)" i]
      rand_section_nonneg_seed [of "int index + (if inverseMode then 10 else 0)" i]
    by blast
qed

theorem rand_in_range_witness:
  "(0 :: int) \<le> 25 \<and> - 1 \<le> rand_full 25 17 \<and> rand_full 25 17 < 1
   \<and> - 1 \<le> rand_section (int 3 + 10) 0 \<and> rand_section (int 3 + 10) 0 < 1"
  using rand_in_range_for_table_seeds [of 25 17 3 True]
    rand_in_range_for_table_seeds [of 25 0 3 True]
  by simp

text \<open>
  C2 as stated, for every integer seed, fails: the remainder operator keeps the sign of
  its dividend, so a negative seed can make the dividend negative and the value fall
  below -1. Seed -12 at step 0 does in the full page's copy, seed -8 at step 0 in the
  section's copy. Neither page passes such a seed.
\<close>

theorem rand_below_range_at_negative_seed:
  "rand_full (- 12) 0 = - (11273 / 5832) \<and> rand_full (- 12) 0 < - 1
   \<and> rand_section (- 8) 0 = - (84827 / 58320) \<and> rand_section (- 8) 0 < - 1"
  by (simp add: rand_full_def rand_section_def js_rem_def)

text \<open>
  C4. For every range key and every integer seed the series has the length fixed by the
  range key alone: 18, 22, 26, 30 in the full page and 16, 20, 24, 28 in the section,
  each inside the band 16 to 18, 20 to 22, 24 to 26, 28 to 30 and strictly increasing
  from 24H to 3M. The series is a function of the range key and the seed: its \<open>j\<close>-th
  value is the product of the step factors \<open>1 + rand seed k * spread\<close> for \<open>k\<close> up to \<open>j\<close>.
\<close>

theorem makeTrend_length_fixed_and_deterministic:
  "length (makeTrend_full rk seed) = length_full rk
   \<and> length (makeTrend_section rk seed) = length_section rk
   \<and> map length_full [R24H, R7D, R30D, R3M] = [18, 22, 26, 30]
   \<and> map length_section [R24H, R7D, R30D, R3M] = [16, 20, 24, 28]
   \<and> 16 \<le> length (makeTrend_full R24H seed) \<and> length (makeTrend_full R24H seed) \<le> 18
   \<and> 20 \<le> length (makeTrend_full R7D seed) \<and> length (makeTrend_full R7D seed) \<le> 22
   \<and> 24 \<le> length (makeTrend_full R30D seed) \<and> length (makeTrend_full R30D seed) \<le> 26
   \<and> 28 \<le> length (makeTrend_full R3M seed) \<and> length (makeTrend_full R3M seed) \<le> 30
   \<and> 16 \<le> length (makeTrend_section R24H seed) \<and> length (makeTrend_section R24H seed) \<le> 18
   \<and> 20 \<le> length (makeTrend_section R7D seed) \<and> length (makeTrend_section R7D seed) \<le> 22
   \<and> 24 \<le> length (makeTrend_section R30D seed) \<and> length (makeTrend_section R30D seed) \<le> 26
   \<and> 28 \<le> length (makeTrend_section R3M seed) \<and> length (makeTrend_section R3M seed) \<le> 30
   \<and> makeTrend_full rk seed =
       map (\<lambda>j. \<Prod>k = 0..<Suc j. 1 + rand_full seed k * spread_of rk) [0..<length_full rk]
   \<and> makeTrend_section rk seed =
       map (\<lambda>j. \<Prod>k = 0..<Suc j. 1 + rand_section seed k * spread_of rk)
         [0..<length_section rk]"
proof -
  have lf: "length (makeTrend_full r seed) = length_full r" for r
    by (simp add: makeTrend_full_def length_trend_loop)
  have ls: "length (makeTrend_section r seed) = length_section r" for r
    by (simp add: makeTrend_section_def length_trend_loop)
  have cf: "makeTrend_full rk seed =
      map (\<lambda>j. \<Prod>k = 0..<Suc j. 1 + rand_full seed k * spread_of rk) [0..<length_full rk]"
    unfolding makeTrend_full_def by (subst trend_loop_closed) simp
  have cs: "makeTrend_section rk seed =
      map (\<lambda>j. \<Prod>k = 0..<Suc j. 1 + rand_section seed k * spread_of rk)
        [0..<length_section rk]"
    unfolding makeTrend_section_def by (subst trend_loop_closed) simp
  have tab: "map length_full [R24H, R7D, R30D, R3M] = [18, 22, 26, 30]
      \<and> map length_section [R24H, R7D, R30D, R3M] = [16, 20, 24, 28]"
    by (simp add: length_full_def length_section_def)
  have bands: "length_full R24H = 18 \<and> length_full R7D = 22 \<and> length_full R30D = 26
      \<and> length_full R3M = 30 \<and> length_section R24H = 16 \<and> length_section R7D = 20
      \<and> length_section R30D = 24 \<and> length_section R3M = 28"
    by (simp add: length_full_def length_section_def)
  show ?thesis
    using tab bands cf cs by (simp only: lf ls) simp
qed

theorem makeTrend_length_witness:
  "length (makeTrend_full R24H 0) = 18 \<and> length (makeTrend_section R3M (- 12)) = 28"
  using makeTrend_length_fixed_and_deterministic [of R24H 0]
    makeTrend_length_fixed_and_deterministic [of R3M "- 12"]
  by (simp add: length_full_def length_section_def)

text \<open>
  C5. For every range key and every integer seed the series is not empty and each of
  its values is strictly positive. (Every step factor is above \<open>1 - 3 * 0.018\<close>, also
  where the hash value leaves its interval.)
\<close>

theorem makeTrend_nonempty_positive:
  "makeTrend_full rk seed \<noteq> [] \<and> list_all (\<lambda>x. 0 < x) (makeTrend_full rk seed)
   \<and> makeTrend_section rk seed \<noteq> [] \<and> list_all (\<lambda>x. 0 < x) (makeTrend_section rk seed)"
proof -
  have sp: "0 < spread_of rk" "spread_of rk \<le> 0.018"
    using spread_of_bounds [of rk] by simp_all
  have ff: "0 < 1 + rand_full seed k * spread_of rk" for k
    using step_factor_pos [OF rand_full_gt sp] .
  have fs: "0 < 1 + rand_section seed k * spread_of rk" for k
    using step_factor_pos [OF rand_section_gt sp] .
  have "0 < length (makeTrend_full rk seed)"
    by (simp add: makeTrend_full_def length_trend_loop length_full_def)
  moreover have "0 < length (makeTrend_section rk seed)"
    by (simp add: makeTrend_section_def length_trend_loop length_section_def)
  moreover have "list_all (\<lambda>x. 0 < x) (makeTrend_full rk seed)"
    unfolding makeTrend_full_def by (rule trend_loop_pos) (simp_all add: ff)
  moreover have "list_all (\<lambda>x. 0 < x) (makeTrend_section rk seed)"
    unfolding makeTrend_section_def by (rule trend_loop_pos) (simp_all add: fs)
  ultimately show ?thesis by simp
qed

theorem makeTrend_nonempty_positive_witness:
  "makeTrend_full R3M (- 12) \<noteq> [] \<and> list_all (\<lambda>x. 0 < x) (makeTrend_full R3M (- 12))
   \<and> makeTrend_section R24H 5 \<noteq> [] \<and> list_all (\<lambda>x. 0 < x) (makeTrend_section R24H 5)"
  using makeTrend_nonempty_positive [of R3M "- 12"] makeTrend_nonempty_positive [of R24H 5]
  by simp

section \<open>Properties of the sort\<close>

lemma mset_insert_by: "mset (insert_by cmp x xs) = add_mset x (mset xs)"
  by (induction xs) simp_all

lemma mset_sort_by: "mset (sort_by cmp xs) = mset xs"
  by (induction xs) (simp_all add: sort_by_def mset_insert_by)

lemma set_sort_by: "set (sort_by cmp xs) = set xs"
  using mset_sort_by [of cmp xs] by (metis set_mset_mset)

lemma length_sort_by: "length (sort_by cmp xs) = length xs"
  using mset_sort_by [of cmp xs] by (metis size_mset)

lemma distinct_map_sort_by: "distinct (map f (sort_by cmp xs)) = distinct (map f xs)"
proof -
  have "mset (map f (sort_by cmp xs)) = mset (map f xs)"
    by (simp add: mset_sort_by)
  then show ?thesis by (metis distinct_count_atmost_1 mset_eq_setD) 
qed

lemma sorted_insert_by:
  assumes total: "\<And>a b. 0 < cmp a b \<Longrightarrow> cmp b a \<le> 0"
    and trans: "\<And>a b c. cmp a b \<le> 0 \<Longrightarrow> cmp b c \<le> 0 \<Longrightarrow> cmp a c \<le> 0"
  shows "sorted_wrt (\<lambda>a b. cmp a b \<le> 0) xs \<Longrightarrow> sorted_wrt (\<lambda>a b. cmp a b \<le> 0) (insert_by cmp x xs)"
proof (induction xs)
  case Nil
  then show ?case by simp
next
  case (Cons y ys)
  show ?case
  proof (cases "cmp x y \<le> 0")
    case True
    then have "\<forall>z\<in>set ys. cmp x z \<le> 0"
      using Cons.prems trans by auto
    with True Cons.prems show ?thesis by simp
  next
    case False
    then have yx: "cmp y x \<le> 0" using total [of x y] by simp
    have "set (insert_by cmp x ys) = insert x (set ys)"
      using mset_insert_by [of cmp x ys] by (metis set_mset_add_mset_insert set_mset_mset)
    with False yx Cons show ?thesis by auto
  qed
qed

lemma sorted_sort_by:
  assumes total: "\<And>a b. 0 < cmp a b \<Longrightarrow> cmp b a \<le> 0"
    and trans: "\<And>a b c. cmp a b \<le> 0 \<Longrightarrow> cmp b c \<le> 0 \<Longrightarrow> cmp a c \<le> 0"
  shows "sorted_wrt (\<lambda>a b. cmp a b \<le> 0) (sort_by cmp xs)"
proof (induction xs)
  case Nil
  show ?case by (simp add: sort_by_def)
next
  case (Cons x xs)
  have "sort_by cmp (x # xs) = insert_by cmp x (sort_by cmp xs)"
    by (simp add: sort_by_def)
  with Cons sorted_insert_by [OF total trans] show ?case by simp
qed

lemma compareRows_le_iff:
  "compareRows lc a b \<le> 0 \<longleftrightarrow>
     (isFocus a \<and> \<not> isFocus b) \<or> (isFocus a = isFocus b \<and> lc (code a) (code b) \<le> 0)"
  by (auto simp: compareRows_def)

text \<open>
  The comparator of the rows is consistent where the collation is: a collation that is
  total and transitive, as that of every locale is.
\<close>

lemma compareRows_total:
  assumes "\<And>x y. 0 < lc x y \<Longrightarrow> lc y x \<le> 0"
  shows "0 < compareRows lc a b \<Longrightarrow> compareRows lc b a \<le> 0"
  using assms [of "code a" "code b"] by (auto simp: compareRows_def split: if_splits)

lemma compareRows_trans:
  assumes "\<And>x y z. lc x y \<le> 0 \<Longrightarrow> lc y z \<le> 0 \<Longrightarrow> lc x z \<le> 0"
  shows "compareRows lc a b \<le> 0 \<Longrightarrow> compareRows lc b c \<le> 0 \<Longrightarrow> compareRows lc a c \<le> 0"
  unfolding compareRows_le_iff using assms [of "code a" "code b" "code c"] by auto

lemma sorted_rows:
  assumes total: "\<And>x y. 0 < lc x y \<Longrightarrow> lc y x \<le> 0"
    and trans: "\<And>x y z. lc x y \<le> 0 \<Longrightarrow> lc y z \<le> 0 \<Longrightarrow> lc x z \<le> 0"
  shows "sorted_wrt (\<lambda>a b. compareRows lc a b \<le> 0) (sort_by (compareRows lc) xs)"
proof (rule sorted_sort_by)
  fix a b
  assume "0 < compareRows lc a b"
  then show "compareRows lc b a \<le> 0"
    using compareRows_total [of lc a b] total by blast
next
  fix a b c
  assume "compareRows lc a b \<le> 0" and "compareRows lc b c \<le> 0"
  then show "compareRows lc a c \<le> 0"
    using compareRows_trans [of lc a b c] trans by blast
qed

text \<open>
  Whatever the collation, the sort puts the rows with the focus flag before the others:
  the comparator asks the collation only about two rows with the same flag.
\<close>

lemma focus_first_insert_by:
  assumes "sorted_wrt (\<lambda>a b. isFocus a \<or> \<not> isFocus b) xs"
  shows "sorted_wrt (\<lambda>a b. isFocus a \<or> \<not> isFocus b) (insert_by (compareRows lc) x xs)"
  using assms
proof (induction xs)
  case Nil
  show ?case by simp
next
  case (Cons y ys)
  have set_ins: "set (insert_by (compareRows lc) x ys) = insert x (set ys)"
    using mset_insert_by [of "compareRows lc" x ys]
    by (metis set_mset_add_mset_insert set_mset_mset)
  show ?case
  proof (cases "compareRows lc x y \<le> 0")
    case True
    then have xy: "isFocus x \<or> \<not> isFocus y"
      by (auto simp: compareRows_def split: if_splits)
    have "isFocus x \<or> \<not> isFocus z" if "z \<in> set ys" for z
      using xy Cons.prems that by auto
    with True xy Cons.prems show ?thesis by auto
  next
    case False
    then have yx: "isFocus y \<or> \<not> isFocus x"
      by (auto simp: compareRows_def split: if_splits)
    have ih: "sorted_wrt (\<lambda>a b. isFocus a \<or> \<not> isFocus b) (insert_by (compareRows lc) x ys)"
      using Cons.IH Cons.prems by simp
    from False yx ih Cons.prems set_ins show ?thesis by auto
  qed
qed

lemma focus_first_sort_by:
  "sorted_wrt (\<lambda>a b. isFocus a \<or> \<not> isFocus b) (sort_by (compareRows lc) xs)"
proof (induction xs)
  case Nil
  show ?case by (simp add: sort_by_def)
next
  case (Cons x xs)
  have "sort_by (compareRows lc) (x # xs) = insert_by (compareRows lc) x (sort_by (compareRows lc) xs)"
    by (simp add: sort_by_def)
  with Cons focus_first_insert_by show ?case by simp
qed

text \<open>The two collations of the concrete tables are total and transitive.\<close>

lemma codePointCompare_consistent:
  "(0 < codePointCompare x y \<longrightarrow> codePointCompare y x \<le> 0)
   \<and> (codePointCompare x y \<le> 0 \<and> codePointCompare y z \<le> 0 \<longrightarrow> codePointCompare x z \<le> 0)"
  by (auto simp: codePointCompare_def split: if_splits)

lemma czechCompare_consistent:
  "(0 < czechCompare x y \<longrightarrow> czechCompare y x \<le> 0)
   \<and> (czechCompare x y \<le> 0 \<and> czechCompare y z \<le> 0 \<longrightarrow> czechCompare x z \<le> 0)"
  by (auto simp: czechCompare_def split: if_splits)

section \<open>Properties of the two tables\<close>

lemma table_ok_sort_by:
  "table_ok b f (sort_by cmp rows) = table_ok b f rows"
  by (simp add: table_ok_def distinct_map_sort_by list_all_iff set_sort_by)

lemma focus_head:
  assumes s: "sorted_wrt (\<lambda>a b. isFocus a \<or> \<not> isFocus b) rows"
    and ex: "r \<in> set rows" "isFocus r"
  shows "rows \<noteq> [] \<and> isFocus (hd rows)"
proof (cases rows)
  case Nil
  with ex show ?thesis by simp
next
  case (Cons x xs)
  show ?thesis
  proof (cases "isFocus x")
    case True
    with Cons show ?thesis by simp
  next
    case False
    with ex Cons have "r \<in> set xs" by auto
    with s Cons have "isFocus x \<or> \<not> isFocus r" by auto
    with False ex(2) show ?thesis by simp
  qed
qed

lemma focus_unique_tl:
  assumes ok: "table_ok b f rows" and ne: "rows \<noteq> []" and h: "isFocus (hd rows)"
  shows "filter isFocus (tl rows) = []"
proof -
  obtain x xs where rows: "rows = x # xs" using ne by (cases rows) auto
  have cx: "code x = f" using ok h rows by (simp add: table_ok_def)
  have "\<not> isFocus y" if "y \<in> set xs" for y
  proof
    assume "isFocus y"
    with ok rows that have "code y = f" by (auto simp: table_ok_def list_all_iff)
    moreover have "code x \<notin> code ` set xs" using ok rows by (simp add: table_ok_def)
    ultimately show False using cx that by auto
  qed
  then show ?thesis using rows by (simp add: filter_empty_conv)
qed

lemma non_focus_collated:
  assumes s: "sorted_wrt (\<lambda>a b. compareRows lc a b \<le> 0) rows"
    and ok: "table_ok b f rows"
  shows "sorted_wrt (\<lambda>x y. lc x y \<le> 0) (map code (filter (\<lambda>r. \<not> isFocus r) rows))
       \<and> distinct (map code (filter (\<lambda>r. \<not> isFocus r) rows))"
proof -
  let ?nf = "filter (\<lambda>r. \<not> isFocus r) rows"
  have "sorted_wrt (\<lambda>a b. compareRows lc a b \<le> 0) ?nf"
    using s by (rule sorted_wrt_filter)
  then have "sorted_wrt (\<lambda>a b. lc (code a) (code b) \<le> 0) ?nf"
    by (rule sorted_wrt_mono_rel [rotated]) (auto simp: compareRows_le_iff)
  then have "sorted_wrt (\<lambda>x y. lc x y \<le> 0) (map code ?nf)"
    by (simp add: sorted_wrt_map)
  moreover have "distinct (map code ?nf)"
    using ok by (simp add: table_ok_def distinct_map_filter)
  ultimately show ?thesis by simp
qed

text \<open>Where the collation agrees with the lexicographic order on the codes at hand.\<close>

lemma collated_lexicographic:
  fixes cs :: "string list"
  assumes s: "sorted_wrt (\<lambda>x y. lc x y \<le> 0) cs" and d: "distinct cs"
    and agree: "\<forall>x\<in>set cs. \<forall>y\<in>set cs. (lc x y \<le> 0) = (x \<le> y)"
  shows "sorted_wrt (<) cs"
proof -
  have "sorted_wrt (\<le>) cs"
    using s by (rule sorted_wrt_mono_rel [rotated]) (simp add: agree)
  with d show ?thesis by (simp add: strict_sorted_iff)
qed

lemma row_full_Some:
  "row_full rs b f rk im i c = Some r \<Longrightarrow>
     code r = c \<and> c \<noteq> b \<and> isFocus r = (c = f) \<and> map_of rs c = Some (rate r) \<and> rate r \<noteq> 0"
  by (auto simp: row_full_def Let_def split: if_splits option.splits)

lemma row_full_None_iff:
  "row_full rs b f rk im i c = None \<longleftrightarrow> c = b \<or> map_of rs c = None \<or> map_of rs c = Some 0"
  by (auto simp: row_full_def Let_def split: if_splits option.splits)

lemma row_section_Some:
  "row_section rs b f rk im i row = Some r \<Longrightarrow>
     code r = code row \<and> isFocus r = (code row = f)
     \<and> Some (rate r) = (case map_of rs (code row) of Some a \<Rightarrow> Some a | None \<Rightarrow> crossRate b (code row))"
  by (auto simp: row_section_def Let_def split: if_splits option.splits)

lemma row_section_None_iff:
  "row_section rs b f rk im i row = None \<longleftrightarrow>
     map_of rs (code row) = None \<and> crossRate b (code row) = None"
  by (auto simp: row_section_def Let_def split: if_splits option.splits)

lemma set_map_filter: "set (List.map_filter g xs) = {y. \<exists>x\<in>set xs. g x = Some y}"
  by (induction xs) (auto simp: List.map_filter_simps split: option.splits)

lemma table_ok_map_filter:
  assumes g: "\<And>i x y. (i, x) \<in> set ixs \<Longrightarrow> g (i, x) = Some y \<Longrightarrow>
      code y = key x \<and> key x \<noteq> b \<and> isFocus y = (key x = f)"
    and d: "distinct (map (key \<circ> snd) ixs)"
  shows "table_ok b f (List.map_filter g ixs)"
  using g d
proof (induction ixs)
  case Nil
  show ?case by (simp add: table_ok_def List.map_filter_simps)
next
  case (Cons p ixs)
  obtain i x where p: "p = (i, x)" by (cases p)
  have ih: "table_ok b f (List.map_filter g ixs)"
  proof (rule Cons.IH)
    fix i x y
    assume "(i, x) \<in> set ixs" and "g (i, x) = Some y"
    then show "code y = key x \<and> key x \<noteq> b \<and> isFocus y = (key x = f)"
      using Cons.prems(1) [of i x y] by simp
  next
    show "distinct (map (key \<circ> snd) ixs)" using Cons.prems(2) by (simp add: comp_def)
  qed
  show ?case
  proof (cases "g (i, x)")
    case None
    with ih p show ?thesis by (simp add: List.map_filter_simps)
  next
    case (Some y)
    have gy: "code y = key x \<and> key x \<noteq> b \<and> isFocus y = (key x = f)"
      using Cons.prems(1) [of i x y] Some p by simp
    have nin: "code y \<notin> code ` set (List.map_filter g ixs)"
    proof
      assume "code y \<in> code ` set (List.map_filter g ixs)"
      then obtain y' where y': "y' \<in> set (List.map_filter g ixs)" "code y' = code y"
        by (auto simp: image_iff)
      from y'(1) obtain q where q: "q \<in> set ixs" "g q = Some y'"
        by (auto simp: set_map_filter)
      obtain j z where jz: "q = (j, z)" by (cases q)
      have "key z \<noteq> key x" using Cons.prems(2) p q(1) jz by force
      moreover have "code y' = key z" using Cons.prems(1) [of j z y'] q jz by simp
      ultimately show False using y'(2) gy by simp
    qed
    have step: "List.map_filter g (p # ixs) = y # List.map_filter g ixs"
      using Some p by (simp add: List.map_filter_simps)
    from gy have "code y \<noteq> b \<and> isFocus y = (code y = f)" by simp
    with ih nin show ?thesis
      unfolding step table_ok_def by simp
  qed
qed

lemma rows_full_Some:
  "rows_full lc (Some rs) b f rk im =
     sort_by (compareRows lc)
       (List.map_filter (\<lambda>(index, c). row_full rs b f rk im index c)
          (enumerate 0 (codes_full rs b f)))"
  by (simp add: rows_full_def)

lemma distinct_codes_full: "distinct (map fst rs) \<Longrightarrow> distinct (codes_full rs b f)"
  by (simp add: codes_full_def Let_def)

lemma rows_full_sorted:
  assumes total: "\<And>x y. 0 < lc x y \<Longrightarrow> lc y x \<le> 0"
    and trans: "\<And>x y z. lc x y \<le> 0 \<Longrightarrow> lc y z \<le> 0 \<Longrightarrow> lc x z \<le> 0"
  shows "sorted_wrt (\<lambda>a b. compareRows lc a b \<le> 0) (rows_full lc snap b f rk im)"
  by (cases snap) (simp_all add: rows_full_def Let_def sorted_rows [OF total trans])

lemma rows_full_focus_first:
  "sorted_wrt (\<lambda>a b. isFocus a \<or> \<not> isFocus b) (rows_full lc snap b f rk im)"
  by (cases snap) (simp_all add: rows_full_def Let_def focus_first_sort_by)

lemma rows_full_ok:
  assumes "distinct (map fst rs)"
  shows "table_ok b f (rows_full lc (Some rs) b f rk im)"
proof -
  have "table_ok b f
      (List.map_filter (\<lambda>(index, c). row_full rs b f rk im index c)
         (enumerate 0 (codes_full rs b f)))"
  proof (rule table_ok_map_filter [where key = "\<lambda>c. c"])
    fix i x y
    assume "(i, x) \<in> set (enumerate 0 (codes_full rs b f))"
      and "(case (i, x) of (index, c) \<Rightarrow> row_full rs b f rk im index c) = Some y"
    then show "code y = x \<and> x \<noteq> b \<and> isFocus y = (x = f)"
      using row_full_Some [of rs b f rk im i x y] by simp
  next
    have "map ((\<lambda>c. c) \<circ> snd) (enumerate 0 (codes_full rs b f)) = codes_full rs b f"
      using map_snd_enumerate [of 0 "codes_full rs b f"] by (simp add: comp_def)
    with distinct_codes_full [OF assms]
    show "distinct (map ((\<lambda>c. c) \<circ> snd) (enumerate 0 (codes_full rs b f)))" by simp
  qed
  then show ?thesis by (simp add: rows_full_Some table_ok_sort_by)
qed

lemma rows_full_focus_iff:
  "(\<exists>r\<in>set (rows_full lc (Some rs) b f rk im). isFocus r)
     \<longleftrightarrow> f \<noteq> b \<and> map_of rs f \<noteq> None \<and> map_of rs f \<noteq> Some 0"
proof
  assume "\<exists>r\<in>set (rows_full lc (Some rs) b f rk im). isFocus r"
  then obtain r i c where r: "isFocus r" "row_full rs b f rk im i c = Some r"
    by (auto simp: rows_full_Some set_sort_by set_map_filter)
  from row_full_Some [OF r(2)] r(1) show "f \<noteq> b \<and> map_of rs f \<noteq> None \<and> map_of rs f \<noteq> Some 0"
    by auto
next
  assume c: "f \<noteq> b \<and> map_of rs f \<noteq> None \<and> map_of rs f \<noteq> Some 0"
  then have "f \<in> set (map fst rs)"
    using map_of_eq_None_iff [of rs f] by simp
  then have "f \<in> set (codes_full rs b f)" by (simp add: codes_full_def Let_def)
  then obtain n where n: "n < length (codes_full rs b f)" "codes_full rs b f ! n = f"
    by (auto simp: in_set_conv_nth)
  then have mem: "(n, f) \<in> set (enumerate 0 (codes_full rs b f))"
    by (simp add: in_set_enumerate_eq)
  from c obtain r where r: "row_full rs b f rk im n f = Some r"
    using row_full_None_iff [of rs b f rk im n f] by (cases "row_full rs b f rk im n f") auto
  with row_full_Some [OF r] have "isFocus r" by simp
  moreover have "r \<in> set (rows_full lc (Some rs) b f rk im)"
    using mem r by (force simp: rows_full_Some set_sort_by set_map_filter)
  ultimately show "\<exists>r\<in>set (rows_full lc (Some rs) b f rk im). isFocus r" by blast
qed

lemma rows_section_eq:
  "rows_section lc rs b f rk im =
     sort_by (compareRows lc)
       (List.map_filter (\<lambda>(index, row). row_section rs b f rk im index row)
          (enumerate 0 (filter (\<lambda>row. code row \<noteq> b) (list_section b f))))"
  by (simp add: rows_section_def)

lemma distinct_ROWS: "distinct (map code ROWS)"
  by (simp add: ROWS_def)

lemma distinct_list_section: "distinct (map code (list_section b f))"
  using distinct_ROWS by (auto simp: list_section_def Let_def find_None_iff)

lemma focus_in_list_section: "f \<in> code ` set (list_section b f)"
  by (auto simp: list_section_def Let_def find_None_iff image_iff)

lemma ROWS_in_list_section: "set ROWS \<subseteq> set (list_section b f)"
  by (auto simp: list_section_def Let_def)

lemma rows_section_sorted:
  assumes total: "\<And>x y. 0 < lc x y \<Longrightarrow> lc y x \<le> 0"
    and trans: "\<And>x y z. lc x y \<le> 0 \<Longrightarrow> lc y z \<le> 0 \<Longrightarrow> lc x z \<le> 0"
  shows "sorted_wrt (\<lambda>a b. compareRows lc a b \<le> 0) (rows_section lc rs b f rk im)"
  by (simp add: rows_section_eq sorted_rows [OF total trans])

lemma rows_section_focus_first:
  "sorted_wrt (\<lambda>a b. isFocus a \<or> \<not> isFocus b) (rows_section lc rs b f rk im)"
  by (simp add: rows_section_eq focus_first_sort_by)

lemma rows_section_ok: "table_ok b f (rows_section lc rs b f rk im)"
proof -
  let ?cands = "filter (\<lambda>row. code row \<noteq> b) (list_section b f)"
  have "table_ok b f
      (List.map_filter (\<lambda>(index, row). row_section rs b f rk im index row) (enumerate 0 ?cands))"
  proof (rule table_ok_map_filter [where key = code])
    fix i x y
    assume m: "(i, x) \<in> set (enumerate 0 ?cands)"
      and gs: "(case (i, x) of (index, row) \<Rightarrow> row_section rs b f rk im index row) = Some y"
    from m have "x \<in> set ?cands"
      unfolding enumerate_eq_zip by (rule set_zip_rightD)
    then have "code x \<noteq> b" by simp
    with gs show "code y = code x \<and> code x \<noteq> b \<and> isFocus y = (code x = f)"
      using row_section_Some [of rs b f rk im i x y] by simp
  next
    have "map (code \<circ> snd) (enumerate 0 ?cands) = map code ?cands"
      using map_snd_enumerate [of 0 ?cands] by (metis map_map)
    then show "distinct (map (code \<circ> snd) (enumerate 0 ?cands))"
      using distinct_list_section [of b f] by (simp add: distinct_map_filter)
  qed
  then show ?thesis by (simp add: rows_section_eq table_ok_sort_by)
qed

lemma rows_section_focus_iff:
  "(\<exists>r\<in>set (rows_section lc rs b f rk im). isFocus r)
     \<longleftrightarrow> f \<noteq> b \<and> (map_of rs f \<noteq> None \<or> crossRate b f \<noteq> None)"
proof
  let ?cands = "filter (\<lambda>row. code row \<noteq> b) (list_section b f)"
  assume "\<exists>r\<in>set (rows_section lc rs b f rk im). isFocus r"
  then obtain r i row where r: "isFocus r" "(i, row) \<in> set (enumerate 0 ?cands)"
      "row_section rs b f rk im i row = Some r"
    by (auto simp: rows_section_eq set_sort_by set_map_filter)
  from r(2) have "row \<in> set ?cands"
    unfolding enumerate_eq_zip by (rule set_zip_rightD)
  then have nb: "code row \<noteq> b" by simp
  from row_section_Some [OF r(3)] r(1) have cf: "code row = f" by simp
  from r(3) have "row_section rs b f rk im i row \<noteq> None" by simp
  then have "map_of rs (code row) \<noteq> None \<or> crossRate b (code row) \<noteq> None"
    unfolding row_section_None_iff by simp
  with nb cf show "f \<noteq> b \<and> (map_of rs f \<noteq> None \<or> crossRate b f \<noteq> None)" by simp
next
  let ?cands = "filter (\<lambda>row. code row \<noteq> b) (list_section b f)"
  assume c: "f \<noteq> b \<and> (map_of rs f \<noteq> None \<or> crossRate b f \<noteq> None)"
  from focus_in_list_section [of f b] obtain row
    where row: "row \<in> set (list_section b f)" "code row = f" by (auto simp: image_iff)
  with c have "row \<in> set ?cands" by simp
  then obtain n where n: "n < length ?cands" "?cands ! n = row"
    unfolding in_set_conv_nth by blast
  then have mem: "(n, row) \<in> set (enumerate 0 ?cands)"
    by (simp add: in_set_enumerate_eq)
  from c row(2) have "row_section rs b f rk im n row \<noteq> None"
    unfolding row_section_None_iff by simp
  then obtain r where r: "row_section rs b f rk im n row = Some r" by auto
  with row_section_Some [OF r] row(2) have "isFocus r" by simp
  moreover have "r \<in> set (rows_section lc rs b f rk im)"
    using mem r by (force simp: rows_section_eq set_sort_by set_map_filter)
  ultimately show "\<exists>r\<in>set (rows_section lc rs b f rk im). isFocus r" by blast
qed

lemma focus_first_or_absent:
  assumes s: "sorted_wrt (\<lambda>a b. isFocus a \<or> \<not> isFocus b) rows" and ok: "table_ok b f rows"
  shows "if (\<exists>r\<in>set rows. isFocus r)
         then rows \<noteq> [] \<and> isFocus (hd rows) \<and> filter isFocus (tl rows) = []
         else filter isFocus rows = []"
proof (cases "\<exists>r\<in>set rows. isFocus r")
  case True
  then obtain r where "r \<in> set rows" "isFocus r" by blast
  from focus_head [OF s this] focus_unique_tl [OF ok] True show ?thesis by simp
next
  case False
  then show ?thesis by (simp add: filter_empty_conv)
qed


lemma map_filter_all_None: "(\<And>x. x \<in> set xs \<Longrightarrow> g x = None) \<Longrightarrow> List.map_filter g xs = []"
  by (induction xs) (simp_all add: List.map_filter_simps)

lemma sample_rate_nonzero: "map_of SAMPLE_RATES c = Some v \<Longrightarrow> v \<noteq> 0"
proof -
  assume "map_of SAMPLE_RATES c = Some v"
  then have "(c, v) \<in> set SAMPLE_RATES" by (rule map_of_SomeD)
  then have "v \<in> snd ` set SAMPLE_RATES" by force
  then show "v \<noteq> 0" by (auto simp: SAMPLE_RATES_def)
qed

lemma crossRate_None_iff:
  "crossRate b c = None \<longleftrightarrow> map_of SAMPLE_RATES b = None \<or> map_of SAMPLE_RATES c = None"
  using sample_rate_nonzero [of b] sample_rate_nonzero [of c]
  by (auto simp: crossRate_def split: option.splits)

lemma other_sample_row:
  obtains row where "row \<in> set ROWS" "code row \<noteq> b" "map_of SAMPLE_RATES (code row) \<noteq> None"
proof (cases "b = ''USD''")
  case True
  have "\<lparr>code = ''EUR'', name = ''Euro'', flag = ''EU''\<rparr> \<in> set ROWS"
    by (simp add: ROWS_def)
  moreover have "map_of SAMPLE_RATES ''EUR'' \<noteq> None" by (simp add: SAMPLE_RATES_def)
  ultimately show ?thesis using that [of "\<lparr>code = ''EUR'', name = ''Euro'', flag = ''EU''\<rparr>"] True
    by simp
next
  case False
  have "\<lparr>code = ''USD'', name = ''US Dollar'', flag = ''US''\<rparr> \<in> set ROWS"
    by (simp add: ROWS_def)
  moreover have "map_of SAMPLE_RATES ''USD'' \<noteq> None" by (simp add: SAMPLE_RATES_def)
  ultimately show ?thesis
    using that [of "\<lparr>code = ''USD'', name = ''US Dollar'', flag = ''US''\<rparr>"] False
    by simp
qed

lemma rows_section_empty_snapshot:
  "rows_section lc [] b f rk im = [] \<longleftrightarrow> map_of SAMPLE_RATES b = None"
proof
  assume e: "rows_section lc [] b f rk im = []"
  show "map_of SAMPLE_RATES b = None"
  proof (rule ccontr)
    assume v: "map_of SAMPLE_RATES b \<noteq> None"
    obtain row where row: "row \<in> set ROWS" "code row \<noteq> b"
        "map_of SAMPLE_RATES (code row) \<noteq> None"
      by (rule other_sample_row)
    have cr: "crossRate b (code row) \<noteq> None"
      using v row(3) by (simp add: crossRate_None_iff)
    let ?cands = "filter (\<lambda>row. code row \<noteq> b) (list_section b f)"
    have "row \<in> set ?cands" using row ROWS_in_list_section [of b f] by auto
    then obtain n where n: "n < length ?cands" "?cands ! n = row"
      unfolding in_set_conv_nth by blast
    then have mem: "(n, row) \<in> set (enumerate 0 ?cands)"
      by (simp add: in_set_enumerate_eq)
    have "row_section [] b f rk im n row \<noteq> None"
      unfolding row_section_None_iff using cr by simp
    then obtain r where "row_section [] b f rk im n row = Some r" by auto
    with mem have "r \<in> set (rows_section lc [] b f rk im)"
      by (force simp: rows_section_eq set_sort_by set_map_filter)
    with e show False by simp
  qed
next
  assume n: "map_of SAMPLE_RATES b = None"
  have "row_section [] b f rk im i row = None" for i row
    unfolding row_section_None_iff using n by (simp add: crossRate_None_iff)
  then have "List.map_filter (\<lambda>(index, row). row_section [] b f rk im index row) xs = []" for xs
    by (intro map_filter_all_None) auto
  then show "rows_section lc [] b f rk im = []"
    by (simp add: rows_section_eq sort_by_def)
qed


text \<open>The definitions a concrete table is evaluated with.\<close>

lemmas table_eval =
  rows_full_def codes_full_def row_full_def rows_section_def list_section_def row_section_def
  ROWS_def crossRate_def SAMPLE_RATES_def sort_by_def compareRows_def codePointCompare_def
  czechCompare_def Let_def List.map_filter_simps

subsection \<open>Claims about the tables\<close>

text \<open>
  C1, as the code has it. Let the focus currency differ from the base currency. In the
  full page's table the focus row exists exactly when the snapshot holds a rate other
  than 0 for the focus currency; in the section's table exactly when the snapshot holds
  a rate for it or the static sample rates give a cross-rate. Where it exists it is the
  first row and no other row has the focus flag; where it does not, no row has the
  flag, and a \<open>null\<close> snapshot gives no row at all. This holds under every collation.
  (The keys of the snapshot object are distinct.)
\<close>

theorem focus_row_first_when_rate_resolves:
  assumes "focusCurrency \<noteq> baseCurrency" and "distinct (map fst rs)"
  shows "(if map_of rs focusCurrency \<noteq> None \<and> map_of rs focusCurrency \<noteq> Some 0
          then rows_full lc (Some rs) baseCurrency focusCurrency rk im \<noteq> []
             \<and> isFocus (hd (rows_full lc (Some rs) baseCurrency focusCurrency rk im))
             \<and> filter isFocus (tl (rows_full lc (Some rs) baseCurrency focusCurrency rk im)) = []
          else filter isFocus (rows_full lc (Some rs) baseCurrency focusCurrency rk im) = [])
       \<and> rows_full lc None baseCurrency focusCurrency rk im = []
       \<and> (if map_of snap focusCurrency \<noteq> None \<or> crossRate baseCurrency focusCurrency \<noteq> None
          then rows_section lc snap baseCurrency focusCurrency rk im \<noteq> []
             \<and> isFocus (hd (rows_section lc snap baseCurrency focusCurrency rk im))
             \<and> filter isFocus (tl (rows_section lc snap baseCurrency focusCurrency rk im)) = []
          else filter isFocus (rows_section lc snap baseCurrency focusCurrency rk im) = [])"
proof -
  have full: "(\<exists>r\<in>set (rows_full lc (Some rs) baseCurrency focusCurrency rk im). isFocus r)
      \<longleftrightarrow> map_of rs focusCurrency \<noteq> None \<and> map_of rs focusCurrency \<noteq> Some 0"
    using assms(1) by (simp add: rows_full_focus_iff)
  have sect: "(\<exists>r\<in>set (rows_section lc snap baseCurrency focusCurrency rk im). isFocus r)
      \<longleftrightarrow> map_of snap focusCurrency \<noteq> None \<or> crossRate baseCurrency focusCurrency \<noteq> None"
    using assms(1) by (simp add: rows_section_focus_iff)
  have a: "if map_of rs focusCurrency \<noteq> None \<and> map_of rs focusCurrency \<noteq> Some 0
          then rows_full lc (Some rs) baseCurrency focusCurrency rk im \<noteq> []
             \<and> isFocus (hd (rows_full lc (Some rs) baseCurrency focusCurrency rk im))
             \<and> filter isFocus (tl (rows_full lc (Some rs) baseCurrency focusCurrency rk im)) = []
          else filter isFocus (rows_full lc (Some rs) baseCurrency focusCurrency rk im) = []"
    using focus_first_or_absent [OF rows_full_focus_first rows_full_ok [OF assms(2)],
        of lc baseCurrency focusCurrency rk im]
    unfolding full .
  have b: "if map_of snap focusCurrency \<noteq> None \<or> crossRate baseCurrency focusCurrency \<noteq> None
          then rows_section lc snap baseCurrency focusCurrency rk im \<noteq> []
             \<and> isFocus (hd (rows_section lc snap baseCurrency focusCurrency rk im))
             \<and> filter isFocus (tl (rows_section lc snap baseCurrency focusCurrency rk im)) = []
          else filter isFocus (rows_section lc snap baseCurrency focusCurrency rk im) = []"
    using focus_first_or_absent [OF rows_section_focus_first rows_section_ok,
        of lc snap baseCurrency focusCurrency rk im]
    unfolding sect .
  have c: "rows_full lc None baseCurrency focusCurrency rk im = []"
    by (simp add: rows_full_def)
  from a b c show ?thesis by blast
qed

theorem focus_row_witness:
  "''INR'' \<noteq> ''USD'' \<and> distinct (map fst [(''INR'', 83.1 :: real), (''EUR'', 0.92)])
   \<and> isFocus (hd (rows_full czechCompare (Some [(''INR'', 83.1), (''EUR'', 0.92)])
                   ''USD'' ''INR'' R24H False))
   \<and> filter isFocus (tl (rows_full czechCompare (Some [(''INR'', 83.1), (''EUR'', 0.92)])
                           ''USD'' ''INR'' R24H False)) = []
   \<and> isFocus (hd (rows_section czechCompare [] ''USD'' ''INR'' R24H False))
   \<and> filter isFocus (rows_section codePointCompare [] ''USD'' ''ZAR'' R24H False) = []"
  using focus_row_first_when_rate_resolves
      [where focusCurrency = "''INR''" and baseCurrency = "''USD''"
         and rs = "[(''INR'', 83.1), (''EUR'', 0.92)]" and lc = czechCompare
         and rk = R24H and im = False and snap = "[]"]
    focus_row_first_when_rate_resolves
      [where focusCurrency = "''ZAR''" and baseCurrency = "''USD''"
         and rs = "[(''INR'', 83.1), (''EUR'', 0.92)]" and lc = codePointCompare
         and rk = R24H and im = False and snap = "[]"]
  by (simp add: crossRate_def SAMPLE_RATES_def)

text \<open>
  C1 as stated fails: with base USD, focus ZAR and the snapshot \<open>{EUR: 0.92}\<close> the focus
  currency is a non-empty string other than the base, and no row of either table has
  the focus flag.
\<close>

theorem focus_row_counterexample:
  "''ZAR'' \<noteq> [] \<and> ''ZAR'' \<noteq> ''USD''
   \<and> map code (rows_full codePointCompare (Some [(''EUR'', 0.92)]) ''USD'' ''ZAR'' R24H False)
       = [''EUR'']
   \<and> filter isFocus
         (rows_full codePointCompare (Some [(''EUR'', 0.92)]) ''USD'' ''ZAR'' R24H False) = []
   \<and> filter isFocus
         (rows_section codePointCompare [(''EUR'', 0.92)] ''USD'' ''ZAR'' R24H False) = []"
  by (simp add: table_eval)

text \<open>
  C3, as the code has it. An empty snapshot, like a \<open>null\<close> one, gives the full page's
  table no row, whatever the base currency, focus currency, range and collation. The section's
  table falls back on the static cross-rates: on an empty snapshot it has no row
  exactly when the base currency has no sample rate.
\<close>

theorem empty_snapshot_rows:
  "rows_full lc (Some []) baseCurrency focusCurrency rk im = []
   \<and> rows_full lc None baseCurrency focusCurrency rk im = []
   \<and> (rows_section lc [] baseCurrency focusCurrency rk im = []
        \<longleftrightarrow> map_of SAMPLE_RATES baseCurrency = None)"
proof -
  have "rows_full lc (Some []) baseCurrency focusCurrency rk im = []"
    by (simp add: rows_full_def codes_full_def row_full_def Let_def List.map_filter_simps sort_by_def)
  moreover have "rows_full lc None baseCurrency focusCurrency rk im = []"
    by (simp add: rows_full_def)
  ultimately show ?thesis using rows_section_empty_snapshot by simp
qed

theorem empty_snapshot_rows_witness:
  "rows_full codePointCompare (Some []) ''USD'' ''INR'' R24H False = []
   \<and> rows_section czechCompare [] ''XXX'' ''INR'' R3M True = []
   \<and> rows_section codePointCompare [] ''USD'' ''INR'' R24H False \<noteq> []"
  using empty_snapshot_rows
      [where lc = codePointCompare and baseCurrency = "''USD''" and focusCurrency = "''INR''"
         and rk = R24H and im = False]
    empty_snapshot_rows
      [where lc = czechCompare and baseCurrency = "''XXX''" and focusCurrency = "''INR''"
         and rk = R3M and im = True]
  by (simp add: SAMPLE_RATES_def)

text \<open>
  C3 as stated fails in the section's table: with base USD and an empty snapshot it
  shows the six other sample currencies at their sample rates.
\<close>

theorem empty_snapshot_counterexample:
  "map code (rows_section codePointCompare [] ''USD'' ''INR'' R24H False)
     = [''INR'', ''AUD'', ''CAD'', ''EUR'', ''GBP'', ''JPY'']
   \<and> map rate (rows_section codePointCompare [] ''USD'' ''INR'' R24H False)
     = [83.1, 1.52, 1.37, 0.92, 0.78, 151.2]"
  by (simp add: table_eval)

text \<open>
  C6, as the code has it. No row of either table has the base currency as its code. The
  rows without the focus flag have distinct codes and stand in the ascending order of
  the browser's collation, any total and transitive one; their codes ascend strictly in
  lexicographic order where that collation agrees with the lexicographic order on
  them. (The keys of the snapshot object are distinct; a \<open>null\<close> snapshot gives no row.)
\<close>

theorem rows_exclude_base_and_collate:
  assumes "distinct (map fst rs)"
    and total: "\<And>x y. 0 < lc x y \<Longrightarrow> lc y x \<le> 0"
    and trans: "\<And>x y z. lc x y \<le> 0 \<Longrightarrow> lc y z \<le> 0 \<Longrightarrow> lc x z \<le> 0"
  shows "list_all (\<lambda>r. code r \<noteq> baseCurrency) (rows_full lc (Some rs) baseCurrency focusCurrency rk im)
       \<and> sorted_wrt (\<lambda>x y. lc x y \<le> 0)
           (map code (filter (\<lambda>r. \<not> isFocus r)
              (rows_full lc (Some rs) baseCurrency focusCurrency rk im)))
       \<and> distinct
           (map code (filter (\<lambda>r. \<not> isFocus r)
              (rows_full lc (Some rs) baseCurrency focusCurrency rk im)))
       \<and> ((\<forall>x\<in>set (map code (rows_full lc (Some rs) baseCurrency focusCurrency rk im)).
             \<forall>y\<in>set (map code (rows_full lc (Some rs) baseCurrency focusCurrency rk im)).
               (lc x y \<le> 0) = (x \<le> y))
           \<longrightarrow> sorted_wrt (<)
                 (map code (filter (\<lambda>r. \<not> isFocus r)
                    (rows_full lc (Some rs) baseCurrency focusCurrency rk im))))
       \<and> rows_full lc None baseCurrency focusCurrency rk im = []
       \<and> list_all (\<lambda>r. code r \<noteq> baseCurrency) (rows_section lc snap baseCurrency focusCurrency rk im)
       \<and> sorted_wrt (\<lambda>x y. lc x y \<le> 0)
           (map code (filter (\<lambda>r. \<not> isFocus r)
              (rows_section lc snap baseCurrency focusCurrency rk im)))
       \<and> distinct
           (map code (filter (\<lambda>r. \<not> isFocus r)
              (rows_section lc snap baseCurrency focusCurrency rk im)))
       \<and> ((\<forall>x\<in>set (map code (rows_section lc snap baseCurrency focusCurrency rk im)).
             \<forall>y\<in>set (map code (rows_section lc snap baseCurrency focusCurrency rk im)).
               (lc x y \<le> 0) = (x \<le> y))
           \<longrightarrow> sorted_wrt (<)
                 (map code (filter (\<lambda>r. \<not> isFocus r)
                    (rows_section lc snap baseCurrency focusCurrency rk im))))"
proof -
  let ?F = "rows_full lc (Some rs) baseCurrency focusCurrency rk im"
  let ?S = "rows_section lc snap baseCurrency focusCurrency rk im"
  let ?nf = "filter (\<lambda>r. \<not> isFocus r)"
  have okf: "table_ok baseCurrency focusCurrency ?F"
    by (rule rows_full_ok [OF assms(1)])
  have oks: "table_ok baseCurrency focusCurrency ?S"
    by (rule rows_section_ok)
  have bf: "list_all (\<lambda>r. code r \<noteq> baseCurrency) ?F"
    using okf by (simp add: table_ok_def list_all_iff)
  have bs: "list_all (\<lambda>r. code r \<noteq> baseCurrency) ?S"
    using oks by (simp add: table_ok_def list_all_iff)
  have cf: "sorted_wrt (\<lambda>x y. lc x y \<le> 0) (map code (?nf ?F)) \<and> distinct (map code (?nf ?F))"
    by (rule non_focus_collated [OF rows_full_sorted [OF total trans] okf])
  have cs: "sorted_wrt (\<lambda>x y. lc x y \<le> 0) (map code (?nf ?S)) \<and> distinct (map code (?nf ?S))"
    by (rule non_focus_collated [OF rows_section_sorted [OF total trans] oks])
  have lf: "sorted_wrt (<) (map code (?nf ?F))"
    if "\<forall>x\<in>set (map code ?F). \<forall>y\<in>set (map code ?F). (lc x y \<le> 0) = (x \<le> y)"
  proof (rule collated_lexicographic [of lc])
    show "\<forall>x\<in>set (map code (?nf ?F)). \<forall>y\<in>set (map code (?nf ?F)). (lc x y \<le> 0) = (x \<le> y)"
      using that by auto
  qed (simp_all add: cf)
  have ls: "sorted_wrt (<) (map code (?nf ?S))"
    if "\<forall>x\<in>set (map code ?S). \<forall>y\<in>set (map code ?S). (lc x y \<le> 0) = (x \<le> y)"
  proof (rule collated_lexicographic [of lc])
    show "\<forall>x\<in>set (map code (?nf ?S)). \<forall>y\<in>set (map code (?nf ?S)). (lc x y \<le> 0) = (x \<le> y)"
      using that by auto
  qed (simp_all add: cs)
  have n: "rows_full lc None baseCurrency focusCurrency rk im = []"
    by (simp add: rows_full_def)
  from bf bs cf cs lf ls n show ?thesis by blast
qed

theorem rows_exclude_base_and_collate_witness:
  "distinct (map fst [(''USD'', 1 :: real), (''INR'', 83.1), (''EUR'', 0.92)])
   \<and> list_all (\<lambda>r. code r \<noteq> ''USD'')
        (rows_full codePointCompare (Some [(''USD'', 1), (''INR'', 83.1), (''EUR'', 0.92)])
           ''USD'' ''INR'' R24H False)
   \<and> sorted_wrt (\<lambda>x y. czechCompare x y \<le> 0) (map code (filter (\<lambda>r. \<not> isFocus r)
        (rows_section czechCompare [(''INR'', 83.1)] ''USD'' ''INR'' R7D True)))
   \<and> sorted_wrt (<) (map code (filter (\<lambda>r. \<not> isFocus r)
        (rows_full codePointCompare (Some [(''USD'', 1), (''INR'', 83.1), (''EUR'', 0.92)])
           ''USD'' ''INR'' R24H False)))"
proof -
  have cp: "\<And>x y. 0 < codePointCompare x y \<Longrightarrow> codePointCompare y x \<le> 0"
    "\<And>x y z. codePointCompare x y \<le> 0 \<Longrightarrow> codePointCompare y z \<le> 0
       \<Longrightarrow> codePointCompare x z \<le> 0"
    using codePointCompare_consistent by blast+
  have cz: "\<And>x y. 0 < czechCompare x y \<Longrightarrow> czechCompare y x \<le> 0"
    "\<And>x y z. czechCompare x y \<le> 0 \<Longrightarrow> czechCompare y z \<le> 0 \<Longrightarrow> czechCompare x z \<le> 0"
    using czechCompare_consistent by blast+
  have d: "distinct (map fst [(''USD'', 1 :: real), (''INR'', 83.1), (''EUR'', 0.92)])"
    by simp
  have agree: "(codePointCompare x y \<le> 0) = (x \<le> y)" for x y
    by (auto simp: codePointCompare_def)
  from rows_exclude_base_and_collate
      [OF d cp, where baseCurrency = "''USD''" and focusCurrency = "''INR''" and rk = R24H
         and im = False and snap = "[]"]
    rows_exclude_base_and_collate
      [OF d cz, where baseCurrency = "''USD''" and focusCurrency = "''INR''" and rk = R7D
         and im = True and snap = "[(''INR'', 83.1)]"]
    d agree
  show ?thesis by simp
qed

text \<open>
  C6 as stated fails where the browser collates in Czech: with base USD and the
  snapshot \<open>{CHF: 0.88, CZK: 23.1}\<close> the full page's table shows CZK before CHF, which is
  not the lexicographic order of the two codes.
\<close>

theorem lexicographic_order_counterexample:
  "map code (filter (\<lambda>r. \<not> isFocus r)
       (rows_full czechCompare (Some [(''CHF'', 0.88), (''CZK'', 23.1)]) ''USD'' ''INR'' R24H False))
     = [''CZK'', ''CHF'']
   \<and> ''CHF'' < ''CZK''
   \<and> \<not> sorted_wrt (<) [''CZK'', ''CHF'']"
  by (simp add: table_eval)




section \<open>Properties of the fetch\<close>

lemma superseded_cancelled_mount: "superseded_cancelled (mount r0)"
  by (simp add: superseded_cancelled_def mount_def)

lemma flags_cleanup:
  "flags (cleanup s) = (if flags s = [] then [] else butlast (flags s) @ [True])"
  by (simp add: cleanup_def)

lemma requested_cleanup: "requested (cleanup s) = requested s"
  by (simp add: cleanup_def)

lemma length_flags_cleanup: "length (flags (cleanup s)) = length (flags s)"
  by (cases "flags s = []") (simp_all add: cleanup_def)

lemma superseded_cancelled_cleanup:
  assumes "superseded_cancelled s"
  shows "superseded_cancelled (cleanup s)"
proof -
  have "list_all (\<lambda>c. c) (butlast (flags (cleanup s)))"
    using assms by (simp add: superseded_cancelled_def flags_cleanup)
  with assms show ?thesis
    by (simp add: superseded_cancelled_def length_flags_cleanup requested_cleanup)
qed

lemma superseded_cancelled_step:
  assumes "superseded_cancelled s"
  shows "superseded_cancelled (step cont s e)"
proof (cases e)
  case (Render b)
  have "list_all (\<lambda>c. c) (flags (cleanup s))"
    using assms by (simp add: superseded_cancelled_def flags_cleanup)
  moreover have "length (flags (cleanup s)) = length (requested s)"
    using assms by (simp add: superseded_cancelled_def length_flags_cleanup)
  ultimately show ?thesis
    using assms Render by (simp add: step_def superseded_cancelled_def)
next
  case (Settle k out)
  with assms show ?thesis by (simp add: step_def superseded_cancelled_def)
next
  case Unmount
  with assms show ?thesis by (simp add: step_def superseded_cancelled_cleanup)
qed

lemma superseded_cancelled_run:
  "superseded_cancelled s \<Longrightarrow> superseded_cancelled (run cont s es)"
  unfolding run_def
  by (induction es arbitrary: s) (simp_all add: superseded_cancelled_step)

lemma stale_settle_ignored:
  assumes inv: "superseded_cancelled s" and k: "Suc k < length (flags s)"
  shows "step cont s (Settle k out) = s"
proof -
  from k have "k < length (butlast (flags s))" by simp
  with inv have "butlast (flags s) ! k"
    by (simp add: superseded_cancelled_def list_all_length)
  with k have "flags s ! k" by (simp add: nth_butlast)
  then show ?thesis by (simp add: step_def)
qed

lemma applied_settle_is_latest:
  assumes inv: "superseded_cancelled s"
    and ch: "rates (step cont s (Settle k out)) \<noteq> rates s"
  shows "Suc k = length (flags s) \<and> requested s ! k = last (requested s)"
proof -
  from ch have k: "k < length (flags s)"
    by (auto simp: step_def split: if_splits)
  have "\<not> Suc k < length (flags s)"
    using stale_settle_ignored [OF inv, of k cont out] ch by auto
  with k have l: "Suc k = length (flags s)" by simp
  with inv have "requested s \<noteq> [] \<and> k = length (requested s) - 1"
    by (auto simp: superseded_cancelled_def)
  then have "requested s ! k = last (requested s)" by (simp add: last_conv_nth)
  with l show ?thesis by simp
qed

subsection \<open>Claim about the fetch\<close>

text \<open>
  C9. Whatever renders, settlings and unmount came before, in any order: settling the
  request of a run of the effect that a later run has superseded leaves the \<open>rates\<close>
  state as it is, on success and on failure, in the full page and in the section. A
  settling that changes \<open>rates\<close> is that of the latest run, whose base currency is the
  one requested last.
\<close>

theorem stale_snapshot_never_applied:
  "(Suc k < length (flags (run cont_full (mount None) es)) \<longrightarrow>
      rates (step cont_full (run cont_full (mount None) es) (Settle k out))
        = rates (run cont_full (mount None) es))
   \<and> (rates (step cont_full (run cont_full (mount None) es) (Settle k out))
        \<noteq> rates (run cont_full (mount None) es) \<longrightarrow>
      Suc k = length (flags (run cont_full (mount None) es))
      \<and> requested (run cont_full (mount None) es) ! k
          = last (requested (run cont_full (mount None) es)))
   \<and> (Suc k' < length (flags (run cont_section (mount []) es')) \<longrightarrow>
      rates (step cont_section (run cont_section (mount []) es') (Settle k' out'))
        = rates (run cont_section (mount []) es'))
   \<and> (rates (step cont_section (run cont_section (mount []) es') (Settle k' out'))
        \<noteq> rates (run cont_section (mount []) es') \<longrightarrow>
      Suc k' = length (flags (run cont_section (mount []) es'))
      \<and> requested (run cont_section (mount []) es') ! k'
          = last (requested (run cont_section (mount []) es')))"
proof -
  have f: "superseded_cancelled (run cont_full (mount None) es)"
    by (rule superseded_cancelled_run [OF superseded_cancelled_mount])
  have s: "superseded_cancelled (run cont_section (mount []) es')"
    by (rule superseded_cancelled_run [OF superseded_cancelled_mount])
  show ?thesis
    using stale_settle_ignored [OF f, of k cont_full out]
      applied_settle_is_latest [OF f, of cont_full k out]
      stale_settle_ignored [OF s, of k' cont_section out']
      applied_settle_is_latest [OF s, of cont_section k' out']
    by simp
qed

theorem stale_snapshot_witness:
  "rates (run cont_full (mount None)
       [Render ''USD'', Render ''EUR'', Settle 1 (Resolved [(''USD'', 1.08)]),
        Settle 0 (Resolved [(''EUR'', 0.92)])])
     = Some [(''USD'', 1.08)]
   \<and> rates (run cont_section (mount [])
       [Render ''USD'', Render ''EUR'', Settle 1 (Resolved (Some [(''USD'', 1.08)])),
        Settle 0 Rejected])
     = [(''USD'', 1.08)]"
  using stale_snapshot_never_applied
    [of 0 "[Render ''USD'', Render ''EUR'', Settle 1 (Resolved [(''USD'', 1.08)])]"
       "Resolved [(''EUR'', 0.92)]" 0
       "[Render ''USD'', Render ''EUR'', Settle 1 (Resolved (Some [(''USD'', 1.08)]))]" Rejected]
  by (simp add: run_def step_def mount_def cleanup_def cont_full_def cont_section_def)

section \<open>Properties of the alerts\<close>

text \<open>
  C8. Whatever the storage holds under the alerts key, \<open>loadAlerts\<close> returns and does not
  throw. It returns the parsed list where the stored string parses as an array, and
  the empty list where the key is missing, where reading the storage throws, where the
  string does not parse, and where it parses to anything but an array. (The empty
  string is no JSON text: \<open>JSON.parse\<close> throws on it.)
\<close>

theorem loadAlerts_never_throws:
  assumes "parse [] = Inl e0"
  shows "(\<exists>alerts. loadAlerts getItem parse = Inr alerts)
     \<and> (\<forall>raw xs. getItem ALERTS_KEY = Inr (Some raw) \<and> parse raw = Inr (JArray xs)
           \<longrightarrow> loadAlerts getItem parse = Inr xs)
     \<and> (getItem ALERTS_KEY = Inr None \<longrightarrow> loadAlerts getItem parse = Inr [])
     \<and> (\<forall>e. getItem ALERTS_KEY = Inl e \<longrightarrow> loadAlerts getItem parse = Inr [])
     \<and> (\<forall>raw e. getItem ALERTS_KEY = Inr (Some raw) \<and> parse raw = Inl e
           \<longrightarrow> loadAlerts getItem parse = Inr [])
     \<and> (\<forall>raw v. getItem ALERTS_KEY = Inr (Some raw) \<and> parse raw = Inr v
           \<and> (\<forall>xs. v \<noteq> JArray xs) \<longrightarrow> loadAlerts getItem parse = Inr [])"
proof -
  have total: "\<exists>alerts. loadAlerts getItem parse = Inr alerts"
    by (simp add: loadAlerts_def split: sum.splits)
  have arr: "loadAlerts getItem parse = Inr xs"
    if "getItem ALERTS_KEY = Inr (Some raw)" "parse raw = Inr (JArray xs)" for raw xs
  proof -
    from that(2) assms have "raw \<noteq> []" by auto
    with that show ?thesis by (simp add: loadAlerts_def loadAlerts_try_def)
  qed
  have missing: "loadAlerts getItem parse = Inr []" if "getItem ALERTS_KEY = Inr None"
    using that by (simp add: loadAlerts_def loadAlerts_try_def)
  have thrown: "loadAlerts getItem parse = Inr []" if "getItem ALERTS_KEY = Inl e" for e
    using that by (simp add: loadAlerts_def loadAlerts_try_def)
  have bad: "loadAlerts getItem parse = Inr []"
    if "getItem ALERTS_KEY = Inr (Some raw)" "parse raw = Inl e" for raw e
    using that by (simp add: loadAlerts_def loadAlerts_try_def)
  have other: "loadAlerts getItem parse = Inr []"
    if "getItem ALERTS_KEY = Inr (Some raw)" "parse raw = Inr v" "\<forall>xs. v \<noteq> JArray xs" for raw v
    using that by (cases v) (simp_all add: loadAlerts_def loadAlerts_try_def)
  from total arr missing thrown bad other show ?thesis by blast
qed

theorem loadAlerts_witness:
  "loadAlerts (\<lambda>k. if k = ALERTS_KEY then Inr (Some ''[7]'') else Inr None)
       (\<lambda>str. if str = ''[7]'' then Inr (JArray [JNumber 7]) else Inl SyntaxError)
     = Inr [JNumber 7]
   \<and> loadAlerts (\<lambda>k. if k = ALERTS_KEY then Inr (Some ''{oops'') else Inr None)
       (\<lambda>str. if str = ''[7]'' then Inr (JArray [JNumber 7]) else Inl SyntaxError)
     = Inr []"
  using loadAlerts_never_throws
      [of "\<lambda>str. if str = ''[7]'' then Inr (JArray [JNumber 7]) else Inl SyntaxError" SyntaxError
          "\<lambda>k. if k = ALERTS_KEY then Inr (Some ''[7]'') else Inr None"]
    loadAlerts_never_throws
      [of "\<lambda>str. if str = ''[7]'' then Inr (JArray [JNumber 7]) else Inl SyntaxError" SyntaxError
          "\<lambda>k. if k = ALERTS_KEY then Inr (Some ''{oops'') else Inr None"]
  by simp

text \<open>
  C10. With both currencies chosen and different and a positive finite target rate,
  \<open>validateForm\<close> accepts exactly when the trimmed email is not empty and the email holds
  an \<open>@\<close> and a dot. An accepted form is saved: \<open>handleSubmit\<close> puts the new alert, with
  the trimmed email, in front of the existing alerts and hands the list to
  \<open>saveAlerts\<close>; a rejected form changes neither. The witness is the email \<open>a@.\<close>.
\<close>

theorem email_check_accepts_iff:
  assumes "fromCurrency f \<noteq> []" and "toCurrency f \<noteq> []"
    and "fromCurrency f \<noteq> toCurrency f"
    and "trim (targetRate f) \<noteq> []"
    and "toNumber (targetRate f) = Finite t" and "0 < t"
  shows "(fst (validateForm toNumber f) \<longleftrightarrow>
           trim (email f) \<noteq> [] \<and> CHR ''@'' \<in> set (email f) \<and> CHR ''.'' \<in> set (email f))
     \<and> (fst (validateForm toNumber f) \<longrightarrow>
           handleSubmit toNumber now isoNow f s =
             s\<lparr>existingAlerts :=
                 \<lparr>alert_id = now, alert_from = fromCurrency f, alert_to = toCurrency f,
                  threshold = Finite t, alert_email = trim (email f), createdAt = isoNow,
                  schedule = [''06:00'', ''19:00'']\<rparr> # existingAlerts s,
               saved := True, error := None,
               persisted := Some
                 (\<lparr>alert_id = now, alert_from = fromCurrency f, alert_to = toCurrency f,
                   threshold = Finite t, alert_email = trim (email f), createdAt = isoNow,
                   schedule = [''06:00'', ''19:00'']\<rparr> # existingAlerts s)\<rparr>)
     \<and> (\<not> fst (validateForm toNumber f) \<longrightarrow>
           existingAlerts (handleSubmit toNumber now isoNow f s) = existingAlerts s
           \<and> persisted (handleSubmit toNumber now isoNow f s) = persisted s)"
  using assms by (auto simp: validateForm_def handleSubmit_def Let_def)

theorem email_check_witness:
  "fst (validateForm (\<lambda>str. if str = ''84.5'' then Finite 84.5 else NaN)
     \<lparr>fromCurrency = ''USD'', toCurrency = ''INR'', targetRate = ''84.5'', email = ''a@.''\<rparr>)
   \<and> map alert_email (existingAlerts
        (handleSubmit (\<lambda>str. if str = ''84.5'' then Finite 84.5 else NaN) ''1700000000000''
           ''2023-11-14T22:13:20.000Z''
           \<lparr>fromCurrency = ''USD'', toCurrency = ''INR'', targetRate = ''84.5'', email = ''a@.''\<rparr>
           \<lparr>existingAlerts = [], saved = False, error = None, persisted = None\<rparr>)) = [''a@.'']"
  using email_check_accepts_iff
    [of "\<lparr>fromCurrency = ''USD'', toCurrency = ''INR'', targetRate = ''84.5'', email = ''a@.''\<rparr>"
        "\<lambda>str. if str = ''84.5'' then Finite 84.5 else NaN" "84.5" "''1700000000000''"
        "''2023-11-14T22:13:20.000Z''"
        "\<lparr>existingAlerts = [], saved = False, error = None, persisted = None\<rparr>"]
  by (simp add: trim_def is_space_def)

end
